theory Spec2Isabelle
  imports Main "HOL-Library.Multiset"
begin

section \<open>Errors\<close>

text \<open>
  A Go \<open>error\<close> value as the S3 folder sees it. \<open>AwsError code message\<close> is a value
  implementing \<open>awserr.Error\<close>; \<open>PlainError\<close> is any other error of the SDK or the
  network. \<open>ObjectNotFoundError\<close> is \<open>storage.NewObjectNotFoundError\<close>,
  \<open>Wrapf cause message\<close> is \<open>errors.Wrapf\<close> (a wrapper, which is no \<open>awserr.Error\<close>
  any more), \<open>Errorf prefix cause\<close> is \<open>fmt.Errorf\<close> of the prefix and the cause printed
  with \<open>%v\<close>.
\<close>

datatype error =
    AwsError string string
  | PlainError string
  | ObjectNotFoundError string
  | Wrapf error string
  | Errorf string error

definition NotFoundAWSErrorCode :: string where
  "NotFoundAWSErrorCode = ''NotFound''"

definition NoSuchKeyAWSErrorCode :: string where
  "NoSuchKeyAWSErrorCode = ''NoSuchKey''"

definition VersioningDefault :: string where
  "VersioningDefault = []"

definition VersioningEnabled :: string where
  "VersioningEnabled = ''enabled''"

definition VersioningDisabled :: string where
  "VersioningDisabled = ''disabled''"

text \<open>The SDK's constant \<open>s3.BucketVersioningStatusEnabled\<close>.\<close>

definition BucketVersioningStatusEnabled :: string where
  "BucketVersioningStatusEnabled = ''Enabled''"

fun isAwsNotExist :: "error \<Rightarrow> bool" where
  "isAwsNotExist (AwsError code msg) =
     (code = NotFoundAWSErrorCode \<or> code = NoSuchKeyAWSErrorCode)"
| "isAwsNotExist _ = False"

text \<open>The verb \<open>'%s'\<close> of the message formats: the argument between single quotes.\<close>

definition quoted :: "string \<Rightarrow> string" where
  "quoted s = CHR 0x27 # s @ [CHR 0x27]"

section \<open>The data of the S3 API\<close>

text \<open>
  The SDK's structures hold pointers; the folder dereferences them without a check, so
  the model takes the fields the SDK fills in as present. Times are seconds, sizes
  are integers.
\<close>

record S3Object =
  obj_Key :: string
  obj_LastModified :: int
  obj_Size :: int

record ObjectVersion =
  ov_Key :: string
  ov_VersionId :: string
  ov_IsLatest :: bool
  ov_LastModified :: int
  ov_Size :: int

record DeleteMarkerEntry =
  dm_Key :: string
  dm_VersionId :: string
  dm_IsLatest :: bool
  dm_LastModified :: int

record ListObjectsOutput =
  lo_CommonPrefixes :: "string list"
  lo_Contents :: "S3Object list"

record ListObjectVersionsOutput =
  lv_CommonPrefixes :: "string list"
  lv_Versions :: "ObjectVersion list"
  lv_DeleteMarkers :: "DeleteMarkerEntry list"

record ObjectIdentifier =
  oi_Key :: string
  oi_VersionId :: "string option"

text \<open>What \<open>ReadObject\<close> hands out: the body of the response, or the range reader
  around it (\<open>NewRangeReader body objectPath maxRetries folder\<close>).\<close>

datatype ReadCloser =
    Body string
  | RangeReader string string int

text \<open>
  Every call of the folder on the backend is recorded with its input and its answer, in
  the order of the calls, and so is every line the folder writes to the error log.
\<close>

datatype event =
    EvHeadObject string string "error option"
  | EvGetObject string string "error + string"
  | EvCopyObject string string string "error option"
  | EvUpload string string string "error option"
  | EvListObjects string string "error option"
  | EvListObjectsPages string string "ListObjectsOutput list" "error option"
  | EvListObjectsV2Pages string string "ListObjectsOutput list" "error option"
  | EvListObjectVersionsPages string string "ListObjectVersionsOutput list" "error option"
  | EvListObjectVersions string string "error + ListObjectVersionsOutput"
  | EvDeleteObjects string "ObjectIdentifier list" "error option"
  | EvGetBucketVersioning string "error + string option"
  | EvErrorLog string error

text \<open>
  The backend (\<open>s3iface.S3API\<close>, and the uploader with its method \<open>upload\<close>) is outside
  the files at hand: it is a parameter, a state machine over a state \<open>'b\<close> of its own. Each
  function takes the request's arguments (the bucket, the key or prefix; the delimiter and
  the page size, which the folder never varies, are left out) and the backend's state,
  and returns the answer and the state after the call. A paging call returns the pages it
  delivers to the callback, then the error it ends with (the callbacks of the folder
  never stop the paging).
\<close>

record 'b S3API =
  HeadObject :: "string \<Rightarrow> string \<Rightarrow> 'b \<Rightarrow> error option \<times> 'b"
  GetObject :: "string \<Rightarrow> string \<Rightarrow> 'b \<Rightarrow> (error + string) \<times> 'b"
  S3CopyObject :: "string \<Rightarrow> string \<Rightarrow> string \<Rightarrow> 'b \<Rightarrow> error option \<times> 'b"
  ListObjects :: "string \<Rightarrow> string \<Rightarrow> 'b \<Rightarrow> error option \<times> 'b"
  ListObjectsPages :: "string \<Rightarrow> string \<Rightarrow> 'b \<Rightarrow> (ListObjectsOutput list \<times> error option) \<times> 'b"
  ListObjectsV2Pages :: "string \<Rightarrow> string \<Rightarrow> 'b \<Rightarrow> (ListObjectsOutput list \<times> error option) \<times> 'b"
  ListObjectVersionsPages ::
    "string \<Rightarrow> string \<Rightarrow> 'b \<Rightarrow> (ListObjectVersionsOutput list \<times> error option) \<times> 'b"
  ListObjectVersions :: "string \<Rightarrow> string \<Rightarrow> 'b \<Rightarrow> (error + ListObjectVersionsOutput) \<times> 'b"
  S3DeleteObjects :: "string \<Rightarrow> ObjectIdentifier list \<Rightarrow> 'b \<Rightarrow> error option \<times> 'b"
  GetBucketVersioning :: "string \<Rightarrow> 'b \<Rightarrow> (error + string option) \<times> 'b"

record 'b Uploader =
  upload :: "string \<Rightarrow> string \<Rightarrow> string \<Rightarrow> 'b \<Rightarrow> error option \<times> 'b"

section \<open>Folder, Config and the state\<close>

record Config =
  Bucket :: string
  EnableVersioning :: string
  UseListObjectsV1 :: bool
  RangeBatchEnabled :: bool
  RangeMaxRetries :: int

text \<open>
  \<open>Folder.config\<close> is a pointer \<open>*Config\<close>: the model keeps the configurations in a
  store and the folder holds an address. \<open>s3API\<close> and \<open>uploader\<close> are the handles of the
  client and of the uploader.
\<close>

record 'b Folder =
  s3API :: "'b S3API"
  uploader :: "'b Uploader"
  bucket :: string
  path :: string
  config :: nat

record 'b world =
  heap :: "nat \<Rightarrow> Config"
  s3 :: 'b
  trace :: "event list"

definition emit :: "event \<Rightarrow> 'b \<Rightarrow> 'b world \<Rightarrow> 'b world" where
  "emit ev b w = w\<lparr>s3 := b, trace := trace w @ [ev]\<rparr>"

definition setEnableVersioning :: "nat \<Rightarrow> string \<Rightarrow> 'b world \<Rightarrow> 'b world" where
  "setEnableVersioning a v w = w\<lparr>heap := (heap w)(a := (heap w a)\<lparr>EnableVersioning := v\<rparr>)\<rparr>"

text \<open>
  \<open>storage.AddDelimiterToPath\<close> and \<open>storage.JoinPath\<close> belong to a package whose source
  is not part of the files at hand, and \<open>path.Join\<close> to Go's library: they are
  parameters of the operations that call them.
\<close>

record storage_pkg =
  AddDelimiterToPath :: "string \<Rightarrow> string"
  JoinPath :: "string \<Rightarrow> string \<Rightarrow> string"
  pathJoin :: "string list \<Rightarrow> string"

definition TrimPrefix :: "string \<Rightarrow> string \<Rightarrow> string" where
  "TrimPrefix s p = (if take (length p) s = p then drop (length p) s else s)"

definition NewFolder ::
  "storage_pkg \<Rightarrow> 'b S3API \<Rightarrow> 'b Uploader \<Rightarrow> string \<Rightarrow> nat \<Rightarrow> 'b world \<Rightarrow> 'b Folder" where
  "NewFolder sp api upl p cfg w =
     \<lparr>s3API = api, uploader = upl, bucket = Bucket (heap w cfg),
      path = AddDelimiterToPath sp (TrimPrefix p ''/''), config = cfg\<rparr>"

section \<open>The versioning mode\<close>

definition isVersioningEnabled :: "'b Folder \<Rightarrow> 'b world \<Rightarrow> bool \<times> 'b world" where
  "isVersioningEnabled folder w =
     (let mode = EnableVersioning (heap w (config folder)) in
      if mode = VersioningEnabled then (True, w)
      else if mode = VersioningDisabled then (False, w)
      else if mode = VersioningDefault then
        (case GetBucketVersioning (s3API folder) (bucket folder) (s3 w) of
           (result, b) \<Rightarrow>
             let w1 = emit (EvGetBucketVersioning (bucket folder) result) b w in
             (case result of
                Inl err \<Rightarrow> (False, w1)
              | Inr status \<Rightarrow>
                  if status = Some BucketVersioningStatusEnabled
                  then (True, setEnableVersioning (config folder) VersioningEnabled w1)
                  else (False, setEnableVersioning (config folder) VersioningDisabled w1)))
      else (False, w))"

definition SetVersioningEnabled :: "'b Folder \<Rightarrow> bool \<Rightarrow> 'b world \<Rightarrow> 'b world" where
  "SetVersioningEnabled folder enable w =
     (if \<not> enable then setEnableVersioning (config folder) VersioningDisabled w
      else (case isVersioningEnabled folder w of
              (on, w1) \<Rightarrow>
                if on then setEnableVersioning (config folder) VersioningEnabled w1
                else setEnableVersioning (config folder) VersioningDisabled w1))"

section \<open>Objects of a listing\<close>

text \<open>
  Modelled from the spec: \<open>storage.Object\<close> and its constructors \<open>NewLocalObject\<close> and
  \<open>NewLocalObjectWithAdditionalInfo\<close> are declared in the storage package, which is
  missing. The spec's data model: an Object is a relative name, a last-modified
  timestamp, a byte size and an optional additional-info string.
\<close>

record LocalObject =
  objectName :: string
  lastModified :: int
  fileSize :: int
  additionalInfo :: string

definition NewLocalObjectWithAdditionalInfo :: "string \<Rightarrow> int \<Rightarrow> int \<Rightarrow> string \<Rightarrow> LocalObject" where
  "NewLocalObjectWithAdditionalInfo n t sz info =
     \<lparr>objectName = n, lastModified = t, fileSize = sz, additionalInfo = info\<rparr>"

definition NewLocalObject :: "string \<Rightarrow> int \<Rightarrow> int \<Rightarrow> LocalObject" where
  "NewLocalObject n t sz = NewLocalObjectWithAdditionalInfo n t sz []"

section \<open>Exists, ReadObject, PutObject, CopyObject\<close>

definition Exists :: "'b Folder \<Rightarrow> string \<Rightarrow> 'b world \<Rightarrow> (bool \<times> error option) \<times> 'b world" where
  "Exists folder objectRelativePath w =
     (let objectPath = path folder @ objectRelativePath in
      case HeadObject (s3API folder) (bucket folder) objectPath (s3 w) of
        (res, b) \<Rightarrow>
          let w1 = emit (EvHeadObject (bucket folder) objectPath res) b w in
          (case res of
             Some err \<Rightarrow>
               if isAwsNotExist err then ((False, None), w1)
               else ((False, Some (Wrapf err
                       (''failed to check s3 object '' @ quoted objectPath @ '' existence''))), w1)
           | None \<Rightarrow> ((True, None), w1)))"

definition PutObject :: "'b Folder \<Rightarrow> string \<Rightarrow> string \<Rightarrow> 'b world \<Rightarrow> error option \<times> 'b world" where
  "PutObject folder name content w =
     (case upload (uploader folder) (bucket folder) (path folder @ name) content (s3 w) of
        (res, b) \<Rightarrow> (res, emit (EvUpload (bucket folder) (path folder @ name) content res) b w))"

definition CopyObject ::
  "storage_pkg \<Rightarrow> 'b Folder \<Rightarrow> string \<Rightarrow> string \<Rightarrow> 'b world \<Rightarrow> error option \<times> 'b world" where
  "CopyObject sp folder srcPath dstPath w =
     (case Exists folder srcPath w of
        ((exists, err), w1) \<Rightarrow>
          if \<not> exists then
            (case err of
               None \<Rightarrow> (Some (ObjectNotFoundError srcPath), w1)
             | Some e \<Rightarrow> (Some e, w1))
          else
            (let source = pathJoin sp [bucket folder, path folder, srcPath];
                 dst = pathJoin sp [path folder, dstPath]
             in case S3CopyObject (s3API folder) source (bucket folder) dst (s3 w1) of
                  (res, b) \<Rightarrow> (res, emit (EvCopyObject source (bucket folder) dst res) b w1)))"

definition ReadObject :: "'b Folder \<Rightarrow> string \<Rightarrow> 'b world \<Rightarrow> (error + ReadCloser) \<times> 'b world" where
  "ReadObject folder objectRelativePath w =
     (let objectPath = path folder @ objectRelativePath in
      case GetObject (s3API folder) (bucket folder) objectPath (s3 w) of
        (res, b) \<Rightarrow>
          let w1 = emit (EvGetObject (bucket folder) objectPath res) b w in
          (case res of
             Inl err \<Rightarrow>
               if isAwsNotExist err then (Inl (ObjectNotFoundError objectPath), w1)
               else (Inl (Wrapf err
                       (''failed to read object: '' @ quoted objectPath @ '' from S3'')), w1)
           | Inr body \<Rightarrow>
               if RangeBatchEnabled (heap w1 (config folder))
               then (Inr (RangeReader body objectPath (RangeMaxRetries (heap w1 (config folder)))), w1)
               else (Inr (Body body), w1)))"

section \<open>GetSubFolder, GetPath, Validate\<close>

definition GetSubFolder :: "storage_pkg \<Rightarrow> 'b Folder \<Rightarrow> string \<Rightarrow> 'b world \<Rightarrow> 'b Folder" where
  "GetSubFolder sp folder subFolderRelativePath w =
     NewFolder sp (s3API folder) (uploader folder)
       (JoinPath sp (path folder) subFolderRelativePath @ ''/'') (config folder) w"

definition GetPath :: "'b Folder \<Rightarrow> string" where
  "GetPath folder = path folder"

definition Validate :: "'b Folder \<Rightarrow> 'b world \<Rightarrow> error option \<times> 'b world" where
  "Validate folder w =
     (case ListObjects (s3API folder) (bucket folder) (path folder) (s3 w) of
        (res, b) \<Rightarrow>
          let w1 = emit (EvListObjects (bucket folder) (path folder) res) b w in
          (case res of
             Some err \<Rightarrow> (Some (Errorf ''bad credentials: '' err), w1)
           | None \<Rightarrow> (None, w1)))"

section \<open>Listing\<close>

text \<open>
  The callback of the plain listing, \<open>listFunc\<close> in \<open>ListFolder\<close>: it appends to the
  two result slices of the enclosing call, which are its accumulator here.
\<close>

definition addSubFolders ::
  "storage_pkg \<Rightarrow> 'b Folder \<Rightarrow> 'b world \<Rightarrow> string list \<Rightarrow> 'b Folder list \<Rightarrow> 'b Folder list" where
  "addSubFolders sp folder w commonPrefixes subFolders =
     foldl (\<lambda>acc p. acc @ [NewFolder sp (s3API folder) (uploader folder) p (config folder) w])
       subFolders commonPrefixes"

definition addContents :: "'b Folder \<Rightarrow> S3Object list \<Rightarrow> LocalObject list \<Rightarrow> LocalObject list" where
  "addContents folder contents objects =
     foldl (\<lambda>acc object.
              if obj_Key object = path folder then acc
              else acc @ [NewLocalObject (TrimPrefix (obj_Key object) (path folder))
                            (obj_LastModified object) (obj_Size object)])
       objects contents"

definition listFunc ::
  "storage_pkg \<Rightarrow> 'b Folder \<Rightarrow> 'b world \<Rightarrow> LocalObject list \<times> 'b Folder list
     \<Rightarrow> ListObjectsOutput \<Rightarrow> LocalObject list \<times> 'b Folder list" where
  "listFunc sp folder w acc files =
     (addContents folder (lo_Contents files) (fst acc),
      addSubFolders sp folder w (lo_CommonPrefixes files) (snd acc))"

text \<open>The callback of the version-aware listing, \<open>versionsListFunc\<close> in \<open>listVersions\<close>.\<close>

definition addVersions :: "'b Folder \<Rightarrow> ObjectVersion list \<Rightarrow> LocalObject list \<Rightarrow> LocalObject list" where
  "addVersions folder versions objects =
     foldl (\<lambda>acc object.
              if ov_Key object = path folder then acc
              else if ov_IsLatest object
              then acc @ [NewLocalObjectWithAdditionalInfo (TrimPrefix (ov_Key object) (path folder))
                            (ov_LastModified object) (ov_Size object)
                            (ov_VersionId object @ '' LATEST'')]
              else acc @ [NewLocalObjectWithAdditionalInfo (TrimPrefix (ov_Key object) (path folder))
                            (ov_LastModified object) (ov_Size object) (ov_VersionId object)])
       objects versions"

definition addDeleteMarkers ::
  "'b Folder \<Rightarrow> DeleteMarkerEntry list \<Rightarrow> LocalObject list \<Rightarrow> LocalObject list" where
  "addDeleteMarkers folder markers objects =
     foldl (\<lambda>acc object.
              if dm_Key object = path folder then acc
              else if dm_IsLatest object
              then acc @ [NewLocalObjectWithAdditionalInfo (TrimPrefix (dm_Key object) (path folder))
                            (dm_LastModified object) 0 (dm_VersionId object @ '' LATEST'')]
              else acc @ [NewLocalObjectWithAdditionalInfo (TrimPrefix (dm_Key object) (path folder))
                            (dm_LastModified object) 0 (dm_VersionId object)])
       objects markers"

definition versionsListFunc ::
  "storage_pkg \<Rightarrow> 'b Folder \<Rightarrow> 'b world \<Rightarrow> LocalObject list \<times> 'b Folder list
     \<Rightarrow> ListObjectVersionsOutput \<Rightarrow> LocalObject list \<times> 'b Folder list" where
  "versionsListFunc sp folder w acc out =
     (addDeleteMarkers folder (lv_DeleteMarkers out)
        (addVersions folder (lv_Versions out) (fst acc)),
      addSubFolders sp folder w (lv_CommonPrefixes out) (snd acc))"

definition listVersions ::
  "storage_pkg \<Rightarrow> 'b Folder \<Rightarrow> string \<Rightarrow> 'b world
     \<Rightarrow> (LocalObject list \<times> 'b Folder list \<times> error option) \<times> 'b world" where
  "listVersions sp folder prefix w =
     (case ListObjectVersionsPages (s3API folder) (bucket folder) prefix (s3 w) of
        ((pages, err), b) \<Rightarrow>
          let w1 = emit (EvListObjectVersionsPages (bucket folder) prefix pages err) b w;
              acc = foldl (versionsListFunc sp folder w) ([], []) pages
          in (case err of
                Some e \<Rightarrow>
                  if \<not> isAwsNotExist e
                  then (([], [], Some (Wrapf e (''failed to list s3 folder: '' @ quoted (path folder)))), w1)
                  else ((fst acc, snd acc, None), w1)
              | None \<Rightarrow> ((fst acc, snd acc, None), w1)))"

definition listObjectsPagesV1 ::
  "storage_pkg \<Rightarrow> 'b Folder \<Rightarrow> string \<Rightarrow> LocalObject list \<times> 'b Folder list \<Rightarrow> 'b world
     \<Rightarrow> ((LocalObject list \<times> 'b Folder list) \<times> error option) \<times> 'b world" where
  "listObjectsPagesV1 sp folder prefix acc w =
     (case ListObjectsPages (s3API folder) (bucket folder) prefix (s3 w) of
        ((pages, err), b) \<Rightarrow>
          ((foldl (listFunc sp folder w) acc pages, err),
           emit (EvListObjectsPages (bucket folder) prefix pages err) b w))"

definition listObjectsPagesV2 ::
  "storage_pkg \<Rightarrow> 'b Folder \<Rightarrow> string \<Rightarrow> LocalObject list \<times> 'b Folder list \<Rightarrow> 'b world
     \<Rightarrow> ((LocalObject list \<times> 'b Folder list) \<times> error option) \<times> 'b world" where
  "listObjectsPagesV2 sp folder prefix acc w =
     (case ListObjectsV2Pages (s3API folder) (bucket folder) prefix (s3 w) of
        ((pages, err), b) \<Rightarrow>
          ((foldl (listFunc sp folder w) acc pages, err),
           emit (EvListObjectsV2Pages (bucket folder) prefix pages err) b w))"

definition listObjectsPages ::
  "storage_pkg \<Rightarrow> 'b Folder \<Rightarrow> string \<Rightarrow> LocalObject list \<times> 'b Folder list \<Rightarrow> 'b world
     \<Rightarrow> ((LocalObject list \<times> 'b Folder list) \<times> error option) \<times> 'b world" where
  "listObjectsPages sp folder prefix acc w =
     (if UseListObjectsV1 (heap w (config folder))
      then listObjectsPagesV1 sp folder prefix acc w
      else listObjectsPagesV2 sp folder prefix acc w)"

definition ListFolder ::
  "storage_pkg \<Rightarrow> 'b Folder \<Rightarrow> 'b world
     \<Rightarrow> (LocalObject list \<times> 'b Folder list \<times> error option) \<times> 'b world" where
  "ListFolder sp folder w =
     (case isVersioningEnabled folder w of
        (versioned, w1) \<Rightarrow>
          if versioned then
            (case listVersions sp folder (path folder) w1 of
               ((objects, subFolders, err), w2) \<Rightarrow>
                 (case err of
                    Some e \<Rightarrow> (([], [], Some e), w2)
                  | None \<Rightarrow> ((objects, subFolders, None), w2)))
          else
            (case listObjectsPages sp folder (path folder) ([], []) w1 of
               ((acc, err), w2) \<Rightarrow>
                 (case err of
                    Some e \<Rightarrow>
                      if \<not> isAwsNotExist e
                      then (([], [], Some (Wrapf e (''failed to list s3 folder: '' @ quoted (path folder)))), w2)
                      else ((fst acc, snd acc, None), w2)
                  | None \<Rightarrow> ((fst acc, snd acc, None), w2))))"

section \<open>Deletion\<close>

text \<open>
  Modelled from the spec: \<open>partitionStrings\<close> is called by \<open>DeleteObjects\<close> and defined in
  a file that is missing. The spec: deletion goes in batches no larger than 1000 keys
  per backend call, and 2500 keys make three calls of sizes 1000, 1000 and 500. So the
  list is cut, in order, into blocks of \<open>blockSize\<close>, the last one shorter. (The folder
  always passes 1000; for a block size of 0 the model gives no block.)
\<close>

function partitionStrings :: "string list \<Rightarrow> nat \<Rightarrow> string list list" where
  "partitionStrings strings blockSize =
     (if strings = [] \<or> blockSize = 0 then []
      else take blockSize strings # partitionStrings (drop blockSize strings) blockSize)"
  by pat_completeness auto
termination
  by (relation "measure (\<lambda>(strings, blockSize). length strings)") auto

definition identifiersOf :: "ListObjectVersionsOutput \<Rightarrow> ObjectIdentifier list" where
  "identifiersOf out =
     foldl (\<lambda>acc deleteMarker.
              acc @ [\<lparr>oi_Key = dm_Key deleteMarker, oi_VersionId = Some (dm_VersionId deleteMarker)\<rparr>])
       (foldl (\<lambda>acc version.
                 acc @ [\<lparr>oi_Key = ov_Key version, oi_VersionId = Some (ov_VersionId version)\<rparr>])
          [] (lv_Versions out))
       (lv_DeleteMarkers out)"

definition getObjectVersions ::
  "'b Folder \<Rightarrow> string \<Rightarrow> 'b world \<Rightarrow> (error + ObjectIdentifier list) \<times> 'b world" where
  "getObjectVersions folder key w =
     (case ListObjectVersions (s3API folder) (bucket folder) (path folder @ key) (s3 w) of
        (res, b) \<Rightarrow>
          let w1 = emit (EvListObjectVersions (bucket folder) (path folder @ key) res) b w in
          (case res of
             Inl err \<Rightarrow> (Inl err, w1)
           | Inr out \<Rightarrow> (Inr (identifiersOf out), w1)))"

text \<open>
  The loop of \<open>partitionToObjects\<close>, with the slice \<open>objects\<close> it appends to. A failed
  version listing is written to the error log and the loop goes on with nothing appended
  for that key.
\<close>

fun partitionToObjectsLoop ::
  "'b Folder \<Rightarrow> bool \<Rightarrow> string list \<Rightarrow> ObjectIdentifier list \<Rightarrow> 'b world
     \<Rightarrow> ObjectIdentifier list \<times> 'b world" where
  "partitionToObjectsLoop folder versioningEnabled [] objects w = (objects, w)"
| "partitionToObjectsLoop folder versioningEnabled (key # keys) objects w =
     (if versioningEnabled then
        (case getObjectVersions folder key w of
           (Inl err, w1) \<Rightarrow>
             partitionToObjectsLoop folder versioningEnabled keys objects
               (emit (EvErrorLog ''failed to list versions: '' err) (s3 w1) w1)
         | (Inr versions, w1) \<Rightarrow>
             partitionToObjectsLoop folder versioningEnabled keys (objects @ versions) w1)
      else partitionToObjectsLoop folder versioningEnabled keys
             (objects @ [\<lparr>oi_Key = path folder @ key, oi_VersionId = None\<rparr>]) w)"

definition partitionToObjects ::
  "'b Folder \<Rightarrow> string list \<Rightarrow> bool \<Rightarrow> 'b world \<Rightarrow> ObjectIdentifier list \<times> 'b world" where
  "partitionToObjects folder keys versioningEnabled w =
     partitionToObjectsLoop folder versioningEnabled keys [] w"

text \<open>\<open>%s\<close> of a slice of strings: the elements between brackets, a space between two.\<close>

fun joinSpaces :: "string list \<Rightarrow> string" where
  "joinSpaces [] = []"
| "joinSpaces [x] = x"
| "joinSpaces (x # y # ys) = x @ '' '' @ joinSpaces (y # ys)"

definition formatStrings :: "string list \<Rightarrow> string" where
  "formatStrings part = ''['' @ joinSpaces part @ '']''"

fun deleteParts ::
  "'b Folder \<Rightarrow> bool \<Rightarrow> string list list \<Rightarrow> 'b world \<Rightarrow> error option \<times> 'b world" where
  "deleteParts folder needsVersioning [] w = (None, w)"
| "deleteParts folder needsVersioning (part # parts) w =
     (case partitionToObjects folder part needsVersioning w of
        (objects, w1) \<Rightarrow>
          (case S3DeleteObjects (s3API folder) (bucket folder) objects (s3 w1) of
             (res, b) \<Rightarrow>
               let w2 = emit (EvDeleteObjects (bucket folder) objects res) b w1 in
               (case res of
                  Some err \<Rightarrow>
                    (Some (Wrapf err (''failed to delete s3 object: '' @ quoted (formatStrings part))), w2)
                | None \<Rightarrow> deleteParts folder needsVersioning parts w2)))"

definition DeleteObjects ::
  "'b Folder \<Rightarrow> string list \<Rightarrow> 'b world \<Rightarrow> error option \<times> 'b world" where
  "DeleteObjects folder objectRelativePaths w =
     (let parts = partitionStrings objectRelativePaths 1000 in
      case isVersioningEnabled folder w of
        (needsVersioning, w1) \<Rightarrow> deleteParts folder needsVersioning parts w1)"

section \<open>The copy package: jobs\<close>

text \<open>
  A copy job. \<open>From\<close> and \<open>To\<close> are \<open>storage.Folder\<close> values of any backend (type \<open>'f\<close>),
  \<open>SrcObj\<close> is a \<open>storage.Object\<close> (type \<open>'o\<close>); \<open>SourceTransformer\<close> is a function on the
  content read, or nil.
\<close>

record ('f, 'o) InfoProvider =
  From :: 'f
  SourceTransformer :: "(string \<Rightarrow> error + string) option"
  To :: 'f
  SrcObj :: 'o
  targetName :: string

definition BuildCopyingInfos ::
  "'f \<Rightarrow> 'f \<Rightarrow> 'o list \<Rightarrow> ('o \<Rightarrow> bool) \<Rightarrow> ('o \<Rightarrow> string)
     \<Rightarrow> (string \<Rightarrow> error + string) option \<Rightarrow> ('f, 'o) InfoProvider list" where
  "BuildCopyingInfos fromFolder toFolder objects filterFunc renameFunc sourceTransformer =
     foldl (\<lambda>infos object.
              if filterFunc object
              then infos @ [\<lparr>From = fromFolder, SourceTransformer = sourceTransformer,
                             To = toFolder, SrcObj = object, targetName = renameFunc object\<rparr>]
              else infos)
       [] objects"

text \<open>The default rename and transform; a nil object is \<open>None\<close>.\<close>

definition NoopRenameFunc :: "LocalObject option \<Rightarrow> string" where
  "NoopRenameFunc o' = (case o' of None \<Rightarrow> [] | Some object \<Rightarrow> objectName object)"

definition NoopSourceTransformer :: "string \<Rightarrow> error + string" where
  "NoopSourceTransformer r = Inr r"

text \<open>
  What \<open>copyObject\<close> calls: \<open>ReadObject\<close> of the source folder, \<open>GetName\<close> of the object, and
  \<open>internal.ConfigureUploaderToFolder\<close> and the uploader's \<open>Upload\<close>, which are not part of
  the files at hand. They are parameters, acting on a storage state \<open>'s\<close>.
\<close>

record ('f, 'o, 'u, 's) copy_env =
  FolderReadObject :: "'f \<Rightarrow> string \<Rightarrow> 's \<Rightarrow> (error + string) \<times> 's"
  GetName :: "'o \<Rightarrow> string"
  ConfigureUploaderToFolder :: "'f \<Rightarrow> 's \<Rightarrow> (error + 'u) \<times> 's"
  UploaderUpload :: "'u \<Rightarrow> string \<Rightarrow> string \<Rightarrow> 's \<Rightarrow> error option \<times> 's"

definition copyObject ::
  "('f, 'o, 'u, 's) copy_env \<Rightarrow> ('f, 'o) InfoProvider \<Rightarrow> 's \<Rightarrow> error option \<times> 's" where
  "copyObject env ch s =
     (case FolderReadObject env (From ch) (GetName env (SrcObj ch)) s of
        (Inl err, s1) \<Rightarrow> (Some err, s1)
      | (Inr objReadCloser, s1) \<Rightarrow>
          (case (case SourceTransformer ch of
                   Some transform \<Rightarrow> transform objReadCloser
                 | None \<Rightarrow> Inr objReadCloser) of
             Inl err \<Rightarrow> (Some err, s1)
           | Inr r \<Rightarrow>
               (case ConfigureUploaderToFolder env (To ch) s1 of
                  (Inl err, s2) \<Rightarrow> (Some err, s2)
                | (Inr uploader', s2) \<Rightarrow> UploaderUpload env uploader' (targetName ch) r s2)))"

section \<open>The copy package: Infos\<close>

text \<open>
  \<open>Infos\<close> starts one goroutine per job. The model is the interleaving of the main
  goroutine and the job goroutines, one atomic action at a time, chosen by a schedule.

  A job goroutine runs \<open>copyObject\<close> (three calls on the storage: read, configure the
  uploader, upload), then puts its ticket back (\<open>tickets <- nil\<close>), then sends its result
  (\<open>errors <- err\<close>) and ends (\<open>wg.Done\<close>). \<open>Releasing err\<close> and \<open>Sending err\<close> are the
  goroutine before these two sends, \<open>err\<close> the result of its \<open>copyObject\<close>.
\<close>

datatype ('f, 'o, 'u) goroutine =
    Reading "('f, 'o) InfoProvider"
  | Configuring "('f, 'o) InfoProvider" string
  | Uploading "('f, 'o) InfoProvider" 'u string
  | Releasing "error option"
  | Sending "error option"

text \<open>
  The main goroutine, at the head of an iteration of the loop over the jobs
  (\<open>Draining\<close>: the inner loop \<open>for len(errors) > 0\<close>), before \<open><-tickets\<close> (\<open>Acquiring\<close>), in
  \<open>wg.Wait()\<close> (\<open>Waiting\<close>), in the last loop over \<open>errors\<close> (\<open>FinalDraining\<close>), or returned.
\<close>

datatype main_pc = Draining | Acquiring | Waiting | FinalDraining | Returned "error option"

text \<open>
  The state: the jobs not yet started, the main goroutine's place, the number of tickets
  in the channel \<open>tickets\<close> (capacity 8), the content of the channel \<open>errors\<close> (capacity 16,
  oldest first), the goroutines that have not ended, and the storage. Two fields only
  record what happened: \<open>finished\<close>, each job whose \<open>copyObject\<close> has returned with its
  result, and \<open>received\<close>, what the main goroutine took from \<open>errors\<close>.
\<close>

record ('f, 'o, 'u, 's) infos_state =
  todo :: "('f, 'o) InfoProvider list"
  pc :: main_pc
  tickets :: nat
  errors :: "error option list"
  goroutines :: "('f, 'o, 'u) goroutine list"
  store :: 's
  finished :: "(('f, 'o) InfoProvider \<times> error option) list"
  received :: "error option list"

definition maxParallelJobsCount :: nat where
  "maxParallelJobsCount = 8"

definition initial :: "('f, 'o) InfoProvider list \<Rightarrow> 's \<Rightarrow> ('f, 'o, 'u, 's) infos_state" where
  "initial chs s =
     \<lparr>todo = chs, pc = (if chs = [] then Waiting else Draining),
      tickets = maxParallelJobsCount, errors = [], goroutines = [], store = s,
      finished = [], received = []\<rparr>"

text \<open>
  One pass of \<open>for len(errors) > 0 { if err := <-errors; err != nil { return err } }\<close>:
  with the channel empty the loop ends and the main goroutine goes on at \<open>next\<close>; otherwise
  it takes the oldest result and returns it if it is an error. (Only the main goroutine
  receives from \<open>errors\<close>, so nothing can empty the channel between the test and the
  receive.)
\<close>

definition drain ::
  "main_pc \<Rightarrow> main_pc \<Rightarrow> ('f, 'o, 'u, 's) infos_state \<Rightarrow> ('f, 'o, 'u, 's) infos_state" where
  "drain here next st =
     (case errors st of
        [] \<Rightarrow> st\<lparr>pc := next\<rparr>
      | err # rest \<Rightarrow>
          st\<lparr>errors := rest, received := received st @ [err],
             pc := (case err of None \<Rightarrow> here | Some e \<Rightarrow> Returned (Some e))\<rparr>)"

text \<open>
  An action of the main goroutine; \<open>None\<close> when it is blocked (no ticket in \<open><-tickets\<close>,
  goroutines left in \<open>wg.Wait()\<close>) or has returned. Taking a ticket, \<open>wg.Add(1)\<close> and the
  \<open>go\<close> statement are one action.
\<close>

definition mainStep :: "('f, 'o, 'u, 's) infos_state \<Rightarrow> ('f, 'o, 'u, 's) infos_state option" where
  "mainStep st =
     (case pc st of
        Draining \<Rightarrow> Some (drain Draining Acquiring st)
      | Acquiring \<Rightarrow>
          (case todo st of
             [] \<Rightarrow> None
           | ch # rest \<Rightarrow>
               if tickets st = 0 then None
               else Some (st\<lparr>tickets := tickets st - 1,
                             goroutines := goroutines st @ [Reading ch],
                             todo := rest,
                             pc := (if rest = [] then Waiting else Draining)\<rparr>))
      | Waiting \<Rightarrow> if goroutines st = [] then Some (st\<lparr>pc := FinalDraining\<rparr>) else None
      | FinalDraining \<Rightarrow> Some (drain FinalDraining (Returned None) st)
      | Returned r \<Rightarrow> None)"

text \<open>\<open>copyObject\<close> of goroutine \<open>i\<close> returns \<open>err\<close>.\<close>

definition returns ::
  "nat \<Rightarrow> ('f, 'o) InfoProvider \<Rightarrow> error option \<Rightarrow> ('f, 'o, 'u, 's) infos_state
     \<Rightarrow> ('f, 'o, 'u, 's) infos_state" where
  "returns i ch err st =
     st\<lparr>goroutines := (goroutines st)[i := Releasing err],
        finished := finished st @ [(ch, err)]\<rparr>"

text \<open>
  An action of the goroutine at place \<open>i\<close>; \<open>None\<close> when there is none, or when it is blocked
  in a send on a full channel.
\<close>

definition goroutineStep ::
  "('f, 'o, 'u, 's) copy_env \<Rightarrow> nat \<Rightarrow> ('f, 'o, 'u, 's) infos_state
     \<Rightarrow> ('f, 'o, 'u, 's) infos_state option" where
  "goroutineStep env i st =
     (if length (goroutines st) \<le> i then None
      else
        (case goroutines st ! i of
           Reading ch \<Rightarrow>
             (case FolderReadObject env (From ch) (GetName env (SrcObj ch)) (store st) of
                (Inl err, s1) \<Rightarrow> Some (returns i ch (Some err) (st\<lparr>store := s1\<rparr>))
              | (Inr objReadCloser, s1) \<Rightarrow>
                  (case (case SourceTransformer ch of
                           Some transform \<Rightarrow> transform objReadCloser
                         | None \<Rightarrow> Inr objReadCloser) of
                     Inl err \<Rightarrow> Some (returns i ch (Some err) (st\<lparr>store := s1\<rparr>))
                   | Inr r \<Rightarrow>
                       Some (st\<lparr>store := s1,
                                goroutines := (goroutines st)[i := Configuring ch r]\<rparr>)))
         | Configuring ch r \<Rightarrow>
             (case ConfigureUploaderToFolder env (To ch) (store st) of
                (Inl err, s1) \<Rightarrow> Some (returns i ch (Some err) (st\<lparr>store := s1\<rparr>))
              | (Inr uploader', s1) \<Rightarrow>
                  Some (st\<lparr>store := s1,
                           goroutines := (goroutines st)[i := Uploading ch uploader' r]\<rparr>))
         | Uploading ch uploader' r \<Rightarrow>
             (case UploaderUpload env uploader' (targetName ch) r (store st) of
                (err, s1) \<Rightarrow> Some (returns i ch err (st\<lparr>store := s1\<rparr>)))
         | Releasing err \<Rightarrow>
             if tickets st < maxParallelJobsCount
             then Some (st\<lparr>tickets := tickets st + 1,
                           goroutines := (goroutines st)[i := Sending err]\<rparr>)
             else None
         | Sending err \<Rightarrow>
             if length (errors st) < 2 * maxParallelJobsCount
             then Some (st\<lparr>errors := errors st @ [err],
                           goroutines := take i (goroutines st) @ drop (Suc i) (goroutines st)\<rparr>)
             else None))"

text \<open>The scheduler picks the main goroutine or a job goroutine by its place.\<close>

datatype thread = Main | Job nat

fun step ::
  "('f, 'o, 'u, 's) copy_env \<Rightarrow> thread \<Rightarrow> ('f, 'o, 'u, 's) infos_state
     \<Rightarrow> ('f, 'o, 'u, 's) infos_state option" where
  "step env Main st = mainStep st"
| "step env (Job i) st = goroutineStep env i st"

text \<open>A run under a schedule; \<open>None\<close> when the schedule picks a thread that cannot move.\<close>

fun run ::
  "('f, 'o, 'u, 's) copy_env \<Rightarrow> thread list \<Rightarrow> ('f, 'o, 'u, 's) infos_state
     \<Rightarrow> ('f, 'o, 'u, 's) infos_state option" where
  "run env [] st = Some st"
| "run env (t # ts) st = (case step env t st of None \<Rightarrow> None | Some st' \<Rightarrow> run env ts st')"

text \<open>A state in which no thread can move.\<close>

definition stuck :: "('f, 'o, 'u, 's) copy_env \<Rightarrow> ('f, 'o, 'u, 's) infos_state \<Rightarrow> bool" where
  "stuck env st =
     (mainStep st = None \<and>
      list_all (\<lambda>i. goroutineStep env i st = None) [0..<length (goroutines st)])"

text \<open>
  What the goroutines hold: the job of a goroutine still inside \<open>copyObject\<close>, and the
  result of a goroutine that has left it and not yet sent it.
\<close>

fun jobsOf :: "('f, 'o, 'u) goroutine \<Rightarrow> ('f, 'o) InfoProvider multiset" where
  "jobsOf (Reading ch) = {#ch#}"
| "jobsOf (Configuring ch r) = {#ch#}"
| "jobsOf (Uploading ch uploader' r) = {#ch#}"
| "jobsOf (Releasing err) = {#}"
| "jobsOf (Sending err) = {#}"

fun heldBy :: "('f, 'o, 'u) goroutine \<Rightarrow> error option multiset" where
  "heldBy (Releasing err) = {#err#}"
| "heldBy (Sending err) = {#err#}"
| "heldBy g = {#}"

text \<open>
  What holds of every state of a run of \<open>Infos\<close> on the jobs \<open>chs\<close>: every job is waiting to
  be started, inside \<open>copyObject\<close>, or finished; every result of a finished job is held by
  its goroutine, in the channel \<open>errors\<close>, or received by the main goroutine; the main
  goroutine has received no error unless it has returned it, as the last value it
  received; it waits only when all jobs are started, and is past \<open>wg.Wait()\<close> only when no
  goroutine is left; and it returns nil only with the channel empty.
\<close>

definition invariant ::
  "('f, 'o) InfoProvider list \<Rightarrow> ('f, 'o, 'u, 's) infos_state \<Rightarrow> bool" where
  "invariant chs st =
     (mset (todo st) + sum_list (map jobsOf (goroutines st)) + mset (map fst (finished st)) = mset chs \<and>
      mset (errors st) + sum_list (map heldBy (goroutines st)) + mset (received st) =
        mset (map snd (finished st)) \<and>
      (case pc st of
         Returned (Some e) \<Rightarrow> (\<exists>k. received st = replicate k None @ [Some e])
       | _ \<Rightarrow> set (received st) \<subseteq> {None}) \<and>
      (pc st = Waiting \<longrightarrow> todo st = []) \<and>
      (pc st = FinalDraining \<or> pc st = Returned None \<longrightarrow> todo st = [] \<and> goroutines st = []) \<and>
      (pc st = Returned None \<longrightarrow> errors st = []))"

fun isSending :: "('f, 'o, 'u) goroutine \<Rightarrow> bool" where
  "isSending (Sending err) = True"
| "isSending g = False"

text \<open>
  A storage for the examples on which every call succeeds (folders and uploaders are
  named by strings), a job on it, and the schedule that lets each goroutine run from its
  start to the release of its ticket right after the main goroutine has started it, and
  lets the goroutines send their results only when the main goroutine is in \<open>wg.Wait()\<close>.
\<close>

definition exampleCopyEnv :: "(string, string, string, unit) copy_env" where
  "exampleCopyEnv =
     \<lparr>FolderReadObject = (\<lambda>f name s. (Inr ''data'', s)),
      GetName = (\<lambda>object. object),
      ConfigureUploaderToFolder = (\<lambda>f s. (Inr f, s)),
      UploaderUpload = (\<lambda>uploader' name r s. (None, s))\<rparr>"

definition exampleJob :: "(string, string) InfoProvider" where
  "exampleJob =
     \<lparr>From = ''src/'', SourceTransformer = None, To = ''dst/'', SrcObj = ''obj'',
      targetName = ''obj''\<rparr>"

text \<open>Five listed objects for the examples of the job construction.\<close>

definition exampleObjects :: "LocalObject option list" where
  "exampleObjects =
     [Some (NewLocalObject ''a.tar'' 1 10), Some (NewLocalObject ''b.log'' 2 20),
      Some (NewLocalObject ''c.tar'' 3 30), Some (NewLocalObject ''d.log'' 4 40),
      Some (NewLocalObject ''e.tar'' 5 50)]"

definition isTar :: "LocalObject option \<Rightarrow> bool" where
  "isTar object = (drop (length (NoopRenameFunc object) - 4) (NoopRenameFunc object) = ''.tar'')"

definition lateSends :: "nat \<Rightarrow> thread list" where
  "lateSends n =
     concat (map (\<lambda>k. [Main, Main, Job k, Job k, Job k, Job k]) [0..<n]) @
     replicate (2 * maxParallelJobsCount) (Job 0)"

section \<open>Reading the trace\<close>

text \<open>What a run of an operation added to the trace, from the state before and after.\<close>

definition newEvents :: "'b world \<Rightarrow> 'b world \<Rightarrow> event list" where
  "newEvents w w' = drop (length (trace w)) (trace w')"

text \<open>
  What a listing call of the trace delivered: a revision is a version or a delete marker;
  a page of the version-aware listing holds its versions, then its delete markers.
\<close>

datatype revision = Version ObjectVersion | Marker DeleteMarkerEntry

fun revKey :: "revision \<Rightarrow> string" where
  "revKey (Version v) = ov_Key v"
| "revKey (Marker d) = dm_Key d"

fun revVersionId :: "revision \<Rightarrow> string" where
  "revVersionId (Version v) = ov_VersionId v"
| "revVersionId (Marker d) = dm_VersionId d"

fun revIsLatest :: "revision \<Rightarrow> bool" where
  "revIsLatest (Version v) = ov_IsLatest v"
| "revIsLatest (Marker d) = dm_IsLatest d"

fun isMarker :: "revision \<Rightarrow> bool" where
  "isMarker (Version v) = False"
| "isMarker (Marker d) = True"

definition revisionsOf :: "ListObjectVersionsOutput \<Rightarrow> revision list" where
  "revisionsOf out = map Version (lv_Versions out) @ map Marker (lv_DeleteMarkers out)"

fun listedRevisions :: "event \<Rightarrow> revision list" where
  "listedRevisions (EvListObjectVersionsPages bkt prefix pages err) = concat (map revisionsOf pages)"
| "listedRevisions _ = []"

fun listedKeys :: "event \<Rightarrow> string list" where
  "listedKeys (EvListObjectsPages bkt prefix pages err) =
     concat (map (\<lambda>page. map obj_Key (lo_Contents page)) pages)"
| "listedKeys (EvListObjectsV2Pages bkt prefix pages err) =
     concat (map (\<lambda>page. map obj_Key (lo_Contents page)) pages)"
| "listedKeys (EvListObjectVersionsPages bkt prefix pages err) =
     map revKey (concat (map revisionsOf pages))"
| "listedKeys _ = []"

text \<open>The object a revision is listed as, whichever loop of \<open>versionsListFunc\<close> builds it.\<close>

definition objectOf :: "'b Folder \<Rightarrow> revision \<Rightarrow> LocalObject" where
  "objectOf f r =
     NewLocalObjectWithAdditionalInfo (TrimPrefix (revKey r) (path f))
       (case r of Version v \<Rightarrow> ov_LastModified v | Marker d \<Rightarrow> dm_LastModified d)
       (case r of Version v \<Rightarrow> ov_Size v | Marker d \<Rightarrow> 0)
       (if revIsLatest r then revVersionId r @ '' LATEST'' else revVersionId r)"

text \<open>The identifiers of the batch deletions of a trace, call by call.\<close>

fun deleteCalls :: "event list \<Rightarrow> ObjectIdentifier list list" where
  "deleteCalls [] = []"
| "deleteCalls (EvDeleteObjects bkt objects res # evs) = objects # deleteCalls evs"
| "deleteCalls (ev # evs) = deleteCalls evs"

section \<open>The operations of a folder\<close>

text \<open>
  The operations of the \<open>storage.Folder\<close> interface that act on the state, and the state
  after one of them (\<open>GetSubFolder\<close> and \<open>GetPath\<close> only compute a value).
\<close>

datatype operation =
    OpExists string
  | OpReadObject string
  | OpPutObject string string
  | OpCopyObject string string
  | OpListFolder
  | OpDeleteObjects "string list"
  | OpValidate
  | OpSetVersioningEnabled bool

fun perform :: "storage_pkg \<Rightarrow> 'b Folder \<Rightarrow> operation \<Rightarrow> 'b world \<Rightarrow> 'b world" where
  "perform sp folder (OpExists p) w = snd (Exists folder p w)"
| "perform sp folder (OpReadObject p) w = snd (ReadObject folder p w)"
| "perform sp folder (OpPutObject name content) w = snd (PutObject folder name content w)"
| "perform sp folder (OpCopyObject src dst) w = snd (CopyObject sp folder src dst w)"
| "perform sp folder OpListFolder w = snd (ListFolder sp folder w)"
| "perform sp folder (OpDeleteObjects paths) w = snd (DeleteObjects folder paths w)"
| "perform sp folder OpValidate w = snd (Validate folder w)"
| "perform sp folder (OpSetVersioningEnabled enable) w = SetVersioningEnabled folder enable w"

text \<open>
  What an operation may write in the store of configurations: the versioning mode of the
  configuration at one address, and nothing else.
\<close>

definition writesModeOnly :: "nat \<Rightarrow> 'b world \<Rightarrow> 'b world \<Rightarrow> bool" where
  "writesModeOnly c w w' =
     (\<forall>a. heap w' a = (heap w a)\<lparr>EnableVersioning := EnableVersioning (heap w' a)\<rparr> \<and>
          (a \<noteq> c \<longrightarrow> heap w' a = heap w a))"

section \<open>A small backend for the examples\<close>

text \<open>
  A backend whose every call succeeds with an empty answer; its state counts the calls.
  The examples below change single functions of it.
\<close>

definition noVersions :: ListObjectVersionsOutput where
  "noVersions = \<lparr>lv_CommonPrefixes = [], lv_Versions = [], lv_DeleteMarkers = []\<rparr>"

definition okS3 :: "nat S3API" where
  "okS3 =
     \<lparr>HeadObject = (\<lambda>bkt key b. (None, Suc b)),
      GetObject = (\<lambda>bkt key b. (Inr ''data'', Suc b)),
      S3CopyObject = (\<lambda>src bkt dst b. (None, Suc b)),
      ListObjects = (\<lambda>bkt prefix b. (None, Suc b)),
      ListObjectsPages = (\<lambda>bkt prefix b. (([], None), Suc b)),
      ListObjectsV2Pages = (\<lambda>bkt prefix b. (([], None), Suc b)),
      ListObjectVersionsPages = (\<lambda>bkt prefix b. (([], None), Suc b)),
      ListObjectVersions = (\<lambda>bkt prefix b. (Inr noVersions, Suc b)),
      S3DeleteObjects = (\<lambda>bkt objects b. (None, Suc b)),
      GetBucketVersioning = (\<lambda>bkt b. (Inr None, Suc b))\<rparr>"

definition okUploader :: "nat Uploader" where
  "okUploader = \<lparr>upload = (\<lambda>bkt key content b. (None, Suc b))\<rparr>"

definition exampleConfig :: "string \<Rightarrow> Config" where
  "exampleConfig mode =
     \<lparr>Bucket = ''bkt'', EnableVersioning = mode, UseListObjectsV1 = False,
      RangeBatchEnabled = False, RangeMaxRetries = 0\<rparr>"

definition exampleWorld :: "string \<Rightarrow> nat world" where
  "exampleWorld mode = \<lparr>heap = (\<lambda>a. exampleConfig mode), s3 = 0, trace = []\<rparr>"

definition exampleFolder :: "nat S3API \<Rightarrow> nat Folder" where
  "exampleFolder api =
     \<lparr>s3API = api, uploader = okUploader, bucket = ''bkt'', path = ''base/'', config = 0\<rparr>"

definition exampleVersions :: ListObjectVersionsOutput where
  "exampleVersions =
     \<lparr>lv_CommonPrefixes = [],
      lv_Versions =
        [\<lparr>ov_Key = ''base/a'', ov_VersionId = ''v3'', ov_IsLatest = True,
          ov_LastModified = 30, ov_Size = 7\<rparr>,
         \<lparr>ov_Key = ''base/a'', ov_VersionId = ''v1'', ov_IsLatest = False,
          ov_LastModified = 10, ov_Size = 5\<rparr>],
      lv_DeleteMarkers =
        [\<lparr>dm_Key = ''base/a'', dm_VersionId = ''v2'', dm_IsLatest = False,
          dm_LastModified = 20\<rparr>]\<rparr>"

text \<open>A backend that lists three revisions under every prefix.\<close>

definition versionedS3 :: "nat S3API" where
  "versionedS3 = okS3\<lparr>ListObjectVersions := \<lambda>bkt prefix b. (Inr exampleVersions, Suc b)\<rparr>"

text \<open>
  A backend whose version listing fails under the prefix \<open>base/a\<close> and lists one version
  of the key that is the prefix everywhere else.
\<close>

definition oneVersion :: "string \<Rightarrow> ListObjectVersionsOutput" where
  "oneVersion key =
     \<lparr>lv_CommonPrefixes = [],
      lv_Versions = [\<lparr>ov_Key = key, ov_VersionId = ''v1'', ov_IsLatest = True,
                      ov_LastModified = 10, ov_Size = 5\<rparr>],
      lv_DeleteMarkers = []\<rparr>"

definition flakyListS3 :: "nat S3API" where
  "flakyListS3 =
     okS3\<lparr>ListObjectVersions := \<lambda>bkt prefix b.
            (if prefix = ''base/a'' then Inl (PlainError ''timeout'') else Inr (oneVersion prefix),
             Suc b)\<rparr>"

text \<open>A backend that knows no object, and one that refuses every request.\<close>

definition notFoundS3 :: "nat S3API" where
  "notFoundS3 =
     okS3\<lparr>HeadObject := \<lambda>bkt key b. (Some (AwsError ''NotFound'' ''Not Found''), Suc b),
          GetObject := \<lambda>bkt key b. (Inl (AwsError ''NoSuchKey'' ''no such key''), Suc b)\<rparr>"

definition deniedS3 :: "nat S3API" where
  "deniedS3 =
     okS3\<lparr>HeadObject := \<lambda>bkt key b. (Some (AwsError ''AccessDenied'' ''denied''), Suc b),
          GetObject := \<lambda>bkt key b. (Inl (PlainError ''connection reset''), Suc b),
          GetBucketVersioning := \<lambda>bkt b. (Inl (AwsError ''AccessDenied'' ''denied''), Suc b)\<rparr>"

text \<open>
  An instance of the path helpers for the examples: the delimiter is added where it is
  missing, and the joins concatenate (the examples join paths that end with the
  delimiter).
\<close>

definition exampleStorage :: storage_pkg where
  "exampleStorage =
     \<lparr>AddDelimiterToPath = (\<lambda>p. if p = [] \<or> last p = CHR ''/'' then p else p @ ''/''),
      JoinPath = (\<lambda>a b. a @ b),
      pathJoin = concat\<rparr>"

text \<open>
  A backend whose listings hold the folder's own prefix \<open>base/\<close> as a key: the plain
  listing has two pages, the version-aware one a page with three versions and two delete
  markers.
\<close>

definition examplePages :: "ListObjectsOutput list" where
  "examplePages =
     [\<lparr>lo_CommonPrefixes = [''base/sub/''],
       lo_Contents = [\<lparr>obj_Key = ''base/'', obj_LastModified = 1, obj_Size = 0\<rparr>,
                      \<lparr>obj_Key = ''base/a'', obj_LastModified = 2, obj_Size = 7\<rparr>]\<rparr>,
      \<lparr>lo_CommonPrefixes = [],
       lo_Contents = [\<lparr>obj_Key = ''base/b'', obj_LastModified = 3, obj_Size = 9\<rparr>]\<rparr>]"

definition exampleVersionPages :: "ListObjectVersionsOutput list" where
  "exampleVersionPages =
     [\<lparr>lv_CommonPrefixes = [''base/sub/''],
       lv_Versions =
         [\<lparr>ov_Key = ''base/'', ov_VersionId = ''v0'', ov_IsLatest = True,
           ov_LastModified = 1, ov_Size = 0\<rparr>,
          \<lparr>ov_Key = ''base/a'', ov_VersionId = ''v3'', ov_IsLatest = True,
           ov_LastModified = 30, ov_Size = 7\<rparr>,
          \<lparr>ov_Key = ''base/a'', ov_VersionId = ''v1'', ov_IsLatest = False,
           ov_LastModified = 10, ov_Size = 5\<rparr>],
       lv_DeleteMarkers =
         [\<lparr>dm_Key = ''base/a'', dm_VersionId = ''v2'', dm_IsLatest = False,
           dm_LastModified = 20\<rparr>,
          \<lparr>dm_Key = ''base/b'', dm_VersionId = ''v4'', dm_IsLatest = True,
           dm_LastModified = 40\<rparr>]\<rparr>]"

definition listingS3 :: "nat S3API" where
  "listingS3 =
     okS3\<lparr>ListObjectsPages := \<lambda>bkt prefix b. ((examplePages, None), Suc b),
          ListObjectsV2Pages := \<lambda>bkt prefix b. ((examplePages, None), Suc b),
          ListObjectVersionsPages := \<lambda>bkt prefix b. ((exampleVersionPages, None), Suc b)\<rparr>"

text \<open>
  A backend whose version-aware listing holds a delete marker under the folder's own
  prefix \<open>base/\<close>.
\<close>

definition ownMarkerPages :: "ListObjectVersionsOutput list" where
  "ownMarkerPages =
     [\<lparr>lv_CommonPrefixes = [],
       lv_Versions =
         [\<lparr>ov_Key = ''base/a'', ov_VersionId = ''v3'', ov_IsLatest = True,
           ov_LastModified = 30, ov_Size = 7\<rparr>],
       lv_DeleteMarkers =
         [\<lparr>dm_Key = ''base/'', dm_VersionId = ''v9'', dm_IsLatest = True,
           dm_LastModified = 90\<rparr>]\<rparr>]"

definition ownMarkerS3 :: "nat S3API" where
  "ownMarkerS3 =
     okS3\<lparr>ListObjectVersionsPages := \<lambda>bkt prefix b. ((ownMarkerPages, None), Suc b)\<rparr>"

text \<open>
  A backend with many keys under one prefix: the versions listed under a prefix are one
  version of each of 501 keys that start with it.
\<close>

definition manyKeys :: "string \<Rightarrow> ListObjectVersionsOutput" where
  "manyKeys prefix =
     \<lparr>lv_CommonPrefixes = [],
      lv_Versions =
        map (\<lambda>i. \<lparr>ov_Key = prefix @ replicate i CHR ''x'', ov_VersionId = ''v1'',
                    ov_IsLatest = True, ov_LastModified = 0, ov_Size = 1\<rparr>) [0..<501],
      lv_DeleteMarkers = []\<rparr>"

definition manyKeysS3 :: "nat S3API" where
  "manyKeysS3 = okS3\<lparr>ListObjectVersions := \<lambda>bkt prefix b. (Inr (manyKeys prefix), Suc b)\<rparr>"

section \<open>Basic facts\<close>

lemma modes_distinct:
  "VersioningEnabled \<noteq> VersioningDisabled" "VersioningEnabled \<noteq> VersioningDefault"
  "VersioningDisabled \<noteq> VersioningDefault"
  "VersioningDisabled \<noteq> VersioningEnabled" "VersioningDefault \<noteq> VersioningEnabled"
  "VersioningDefault \<noteq> VersioningDisabled"
  by (simp_all add: VersioningEnabled_def VersioningDisabled_def VersioningDefault_def)

lemma mode_set [simp]:
  "EnableVersioning (heap (setEnableVersioning a v w) a) = v"
  "trace (setEnableVersioning a v w) = trace w"
  "s3 (setEnableVersioning a v w) = s3 w"
  by (simp_all add: setEnableVersioning_def)

lemma emit_simps [simp]:
  "heap (emit ev b w) = heap w" "s3 (emit ev b w) = b" "trace (emit ev b w) = trace w @ [ev]"
  by (simp_all add: emit_def)

lemma foldl_snoc_map: "foldl (\<lambda>acc x. acc @ [g x]) acc xs = acc @ map g xs"
  by (induction xs arbitrary: acc) auto

lemma foldl_snoc_filter:
  "foldl (\<lambda>acc x. if skip x then acc else acc @ [g x]) acc xs = acc @ map g (filter (\<lambda>x. \<not> skip x) xs)"
  by (induction xs arbitrary: acc) auto

lemma identifiersOf_eq:
  "identifiersOf out =
     map (\<lambda>v. \<lparr>oi_Key = ov_Key v, oi_VersionId = Some (ov_VersionId v)\<rparr>) (lv_Versions out) @
     map (\<lambda>d. \<lparr>oi_Key = dm_Key d, oi_VersionId = Some (dm_VersionId d)\<rparr>) (lv_DeleteMarkers out)"
  by (simp add: identifiersOf_def foldl_snoc_map)

lemma partitionStrings_unfold:
  "partitionStrings [] n = []"
  "n > 0 \<Longrightarrow> xs \<noteq> [] \<Longrightarrow> partitionStrings xs n = take n xs # partitionStrings (drop n xs) n"
  by simp_all

declare partitionStrings.simps [simp del]

lemma concat_partitionStrings: "0 < n \<Longrightarrow> concat (partitionStrings xs n) = xs"
proof (induction xs n rule: partitionStrings.induct)
  case (1 strings blockSize)
  then show ?case by (cases "strings = []") (simp_all add: partitionStrings_unfold)
qed

lemma ceil_div_step:
  assumes "0 < n" "0 < (L::nat)"
  shows "(L + n - 1) div n = Suc ((L - n + n - 1) div n)"
proof -
  obtain k where L: "L = Suc k" using assms(2) by (cases L) auto
  have lhs: "(L + n - 1) div n = Suc (k div n)"
    using assms(1) div_add_self2 [of n k] by (simp add: L)
  show ?thesis
  proof (cases "L \<le> n")
    case True
    then have "k div n = 0" "(L - n + n - 1) div n = 0" using assms(1) by (simp_all add: L)
    then show ?thesis using lhs by simp
  next
    case False
    then have "L - n + n - 1 = k" by (simp add: L)
    then show ?thesis using lhs by simp
  qed
qed

lemma length_partitionStrings:
  "0 < n \<Longrightarrow> length (partitionStrings xs n) = (length xs + n - 1) div n"
proof (induction xs n rule: partitionStrings.induct)
  case (1 strings blockSize)
  show ?case
  proof (cases "strings = []")
    case True
    then show ?thesis using 1(2) by (simp add: partitionStrings_unfold)
  next
    case False
    then have len: "0 < length strings" by simp
    have ih: "length (partitionStrings (drop blockSize strings) blockSize) =
           (length strings - blockSize + blockSize - 1) div blockSize"
      using 1 False by simp
    show ?thesis
      using ih ceil_div_step [OF 1(2) len] False 1(2) by (simp add: partitionStrings_unfold)
  qed
qed

lemma partitionStrings_blocks:
  "0 < n \<Longrightarrow> part \<in> set (partitionStrings xs n) \<Longrightarrow> part \<noteq> [] \<and> length part \<le> n"
proof (induction xs n rule: partitionStrings.induct)
  case (1 strings blockSize)
  then show ?case by (cases "strings = []") (auto simp: partitionStrings_unfold)
qed

lemma getObjectVersions_trace:
  "getObjectVersions f key w = (r, w') \<Longrightarrow>
     heap w' = heap w \<and>
     trace w' = trace w @ [EvListObjectVersions (bucket f) (path f @ key)
        (fst (ListObjectVersions (s3API f) (bucket f) (path f @ key) (s3 w)))] \<and>
     r = map_sum id identifiersOf (fst (ListObjectVersions (s3API f) (bucket f) (path f @ key) (s3 w)))"
  by (auto simp: getObjectVersions_def Let_def split: prod.splits sum.splits)

lemma partitionToObjectsLoop_plain:
  "partitionToObjectsLoop f False keys acc w =
     (acc @ map (\<lambda>key. \<lparr>oi_Key = path f @ key, oi_VersionId = None\<rparr>) keys, w)"
  by (induction keys arbitrary: acc) auto

lemma partitionToObjectsLoop_versions:
  "partitionToObjectsLoop f True keys acc w = (objs, w') \<Longrightarrow>
     heap w' = heap w \<and> set acc \<subseteq> set objs \<and>
     (\<exists>evs. trace w' = trace w @ evs \<and>
        (\<forall>key\<in>set keys. \<exists>res. EvListObjectVersions (bucket f) (path f @ key) res \<in> set evs \<and>
            (\<forall>out. res = Inr out \<longrightarrow> set (identifiersOf out) \<subseteq> set objs) \<and>
            (\<forall>err. res = Inl err \<longrightarrow> EvErrorLog ''failed to list versions: '' err \<in> set evs)))"
proof (induction keys arbitrary: acc w)
  case Nil
  then show ?case by simp
next
  case (Cons key keys)
  obtain r w1 where g: "getObjectVersions f key w = (r, w1)" by (cases "getObjectVersions f key w")
  note t = getObjectVersions_trace [OF g]
  define q where "q = fst (ListObjectVersions (s3API f) (bucket f) (path f @ key) (s3 w))"
  show ?case
  proof (cases r)
    case (Inl err)
    let ?w2 = "emit (EvErrorLog ''failed to list versions: '' err) (s3 w1) w1"
    from Cons.prems g Inl have rec: "partitionToObjectsLoop f True keys acc ?w2 = (objs, w')" by simp
    from Cons.IH [OF rec] obtain evs where
      ih: "heap w' = heap ?w2" "set acc \<subseteq> set objs" "trace w' = trace ?w2 @ evs"
        "\<forall>key\<in>set keys. \<exists>res. EvListObjectVersions (bucket f) (path f @ key) res \<in> set evs \<and>
            (\<forall>out. res = Inr out \<longrightarrow> set (identifiersOf out) \<subseteq> set objs) \<and>
            (\<forall>err. res = Inl err \<longrightarrow> EvErrorLog ''failed to list versions: '' err \<in> set evs)"
      by blast
    have q: "q = Inl err" using t Inl by (cases q) (auto simp: q_def)
    let ?evs = "[EvListObjectVersions (bucket f) (path f @ key) q,
                 EvErrorLog ''failed to list versions: '' err] @ evs"
    have "trace w' = trace w @ ?evs" using ih(3) t by (simp add: q_def)
    moreover have "\<forall>k\<in>set (key # keys). \<exists>res. EvListObjectVersions (bucket f) (path f @ k) res \<in> set ?evs \<and>
            (\<forall>out. res = Inr out \<longrightarrow> set (identifiersOf out) \<subseteq> set objs) \<and>
            (\<forall>err. res = Inl err \<longrightarrow> EvErrorLog ''failed to list versions: '' err \<in> set ?evs)"
    proof
      fix k assume "k \<in> set (key # keys)"
      then consider "k = key" | "k \<in> set keys" by auto
      then show "\<exists>res. EvListObjectVersions (bucket f) (path f @ k) res \<in> set ?evs \<and>
            (\<forall>out. res = Inr out \<longrightarrow> set (identifiersOf out) \<subseteq> set objs) \<and>
            (\<forall>err. res = Inl err \<longrightarrow> EvErrorLog ''failed to list versions: '' err \<in> set ?evs)"
      proof cases
        case 1
        then show ?thesis using q by (intro exI [of _ q]) simp
      next
        case 2
        with ih(4) obtain res where "EvListObjectVersions (bucket f) (path f @ k) res \<in> set evs"
          "\<forall>out. res = Inr out \<longrightarrow> set (identifiersOf out) \<subseteq> set objs"
          "\<forall>err. res = Inl err \<longrightarrow> EvErrorLog ''failed to list versions: '' err \<in> set evs"
          by blast
        then show ?thesis by (intro exI [of _ res]) simp
      qed
    qed
    ultimately show ?thesis using ih(1,2) t by (intro conjI exI [of _ ?evs]) simp_all
  next
    case (Inr versions)
    from Cons.prems g Inr have rec: "partitionToObjectsLoop f True keys (acc @ versions) w1 = (objs, w')"
      by simp
    from Cons.IH [OF rec] obtain evs where
      ih: "heap w' = heap w1" "set (acc @ versions) \<subseteq> set objs" "trace w' = trace w1 @ evs"
        "\<forall>key\<in>set keys. \<exists>res. EvListObjectVersions (bucket f) (path f @ key) res \<in> set evs \<and>
            (\<forall>out. res = Inr out \<longrightarrow> set (identifiersOf out) \<subseteq> set objs) \<and>
            (\<forall>err. res = Inl err \<longrightarrow> EvErrorLog ''failed to list versions: '' err \<in> set evs)"
      by blast
    obtain out where q: "q = Inr out" "versions = identifiersOf out"
      using t Inr by (cases q) (auto simp: q_def)
    let ?evs = "EvListObjectVersions (bucket f) (path f @ key) q # evs"
    have "trace w' = trace w @ ?evs" using ih(3) t by (simp add: q_def)
    moreover have "\<forall>k\<in>set (key # keys). \<exists>res. EvListObjectVersions (bucket f) (path f @ k) res \<in> set ?evs \<and>
            (\<forall>out. res = Inr out \<longrightarrow> set (identifiersOf out) \<subseteq> set objs) \<and>
            (\<forall>err. res = Inl err \<longrightarrow> EvErrorLog ''failed to list versions: '' err \<in> set ?evs)"
    proof
      fix k assume "k \<in> set (key # keys)"
      then consider "k = key" | "k \<in> set keys" by auto
      then show "\<exists>res. EvListObjectVersions (bucket f) (path f @ k) res \<in> set ?evs \<and>
            (\<forall>out. res = Inr out \<longrightarrow> set (identifiersOf out) \<subseteq> set objs) \<and>
            (\<forall>err. res = Inl err \<longrightarrow> EvErrorLog ''failed to list versions: '' err \<in> set ?evs)"
      proof cases
        case 1
        then show ?thesis using q ih(2) by (intro exI [of _ q]) simp
      next
        case 2
        with ih(4) obtain res where "EvListObjectVersions (bucket f) (path f @ k) res \<in> set evs"
          "\<forall>out. res = Inr out \<longrightarrow> set (identifiersOf out) \<subseteq> set objs"
          "\<forall>err. res = Inl err \<longrightarrow> EvErrorLog ''failed to list versions: '' err \<in> set evs"
          by blast
        then show ?thesis by (intro exI [of _ res]) simp
      qed
    qed
    ultimately show ?thesis using ih(1,2) t by (intro conjI exI [of _ ?evs]) simp_all
  qed
qed

lemma isVersioningEnabled_trace:
  "isVersioningEnabled f w = (on, w1) \<Longrightarrow> \<exists>evs. trace w1 = trace w @ evs"
  by (auto simp: isVersioningEnabled_def Let_def split: if_splits prod.splits sum.splits)

lemma deleteParts_versions:
  "deleteParts f True parts w = (None, w') \<Longrightarrow>
     \<exists>evs. trace w' = trace w @ evs \<and>
        (\<forall>part\<in>set parts. \<forall>key\<in>set part.
           \<exists>res. EvListObjectVersions (bucket f) (path f @ key) res \<in> set evs \<and>
             (\<forall>out. res = Inr out \<longrightarrow>
                (\<exists>objs. EvDeleteObjects (bucket f) objs None \<in> set evs \<and>
                        set (identifiersOf out) \<subseteq> set objs)) \<and>
             (\<forall>err. res = Inl err \<longrightarrow> EvErrorLog ''failed to list versions: '' err \<in> set evs))"
proof (induction parts arbitrary: w)
  case Nil
  then show ?case by simp
next
  case (Cons part parts)
  obtain objs w1 where p: "partitionToObjects f part True w = (objs, w1)"
    by (cases "partitionToObjects f part True w")
  obtain res b where d: "S3DeleteObjects (s3API f) (bucket f) objs (s3 w1) = (res, b)"
    by (cases "S3DeleteObjects (s3API f) (bucket f) objs (s3 w1)")
  let ?w2 = "emit (EvDeleteObjects (bucket f) objs res) b w1"
  from Cons.prems p d have res: "res = None" and rec: "deleteParts f True parts ?w2 = (None, w')"
    by (auto simp: Let_def split: option.splits)
  from partitionToObjectsLoop_versions [OF p [unfolded partitionToObjects_def]]
  obtain evs1 where l: "trace w1 = trace w @ evs1"
    "\<forall>key\<in>set part. \<exists>res. EvListObjectVersions (bucket f) (path f @ key) res \<in> set evs1 \<and>
            (\<forall>out. res = Inr out \<longrightarrow> set (identifiersOf out) \<subseteq> set objs) \<and>
            (\<forall>err. res = Inl err \<longrightarrow> EvErrorLog ''failed to list versions: '' err \<in> set evs1)"
    by blast
  from Cons.IH [OF rec] obtain evs2 where ih: "trace w' = trace ?w2 @ evs2"
    "\<forall>part\<in>set parts. \<forall>key\<in>set part.
           \<exists>res. EvListObjectVersions (bucket f) (path f @ key) res \<in> set evs2 \<and>
             (\<forall>out. res = Inr out \<longrightarrow>
                (\<exists>objs. EvDeleteObjects (bucket f) objs None \<in> set evs2 \<and>
                        set (identifiersOf out) \<subseteq> set objs)) \<and>
             (\<forall>err. res = Inl err \<longrightarrow> EvErrorLog ''failed to list versions: '' err \<in> set evs2)"
    by blast
  let ?evs = "evs1 @ EvDeleteObjects (bucket f) objs None # evs2"
  have tr: "trace w' = trace w @ ?evs" using ih(1) l(1) res by simp
  have "\<forall>pt\<in>set (part # parts). \<forall>key\<in>set pt.
           \<exists>res. EvListObjectVersions (bucket f) (path f @ key) res \<in> set ?evs \<and>
             (\<forall>out. res = Inr out \<longrightarrow>
                (\<exists>objs. EvDeleteObjects (bucket f) objs None \<in> set ?evs \<and>
                        set (identifiersOf out) \<subseteq> set objs)) \<and>
             (\<forall>err. res = Inl err \<longrightarrow> EvErrorLog ''failed to list versions: '' err \<in> set ?evs)"
  proof (intro ballI)
    fix pt key assume pt: "pt \<in> set (part # parts)" and key: "key \<in> set pt"
    from pt consider "pt = part" | "pt \<in> set parts" by auto
    then show "\<exists>res. EvListObjectVersions (bucket f) (path f @ key) res \<in> set ?evs \<and>
             (\<forall>out. res = Inr out \<longrightarrow>
                (\<exists>objs. EvDeleteObjects (bucket f) objs None \<in> set ?evs \<and>
                        set (identifiersOf out) \<subseteq> set objs)) \<and>
             (\<forall>err. res = Inl err \<longrightarrow> EvErrorLog ''failed to list versions: '' err \<in> set ?evs)"
    proof cases
      case 1
      with l(2) key obtain r where r: "EvListObjectVersions (bucket f) (path f @ key) r \<in> set evs1"
        "\<forall>out. r = Inr out \<longrightarrow> set (identifiersOf out) \<subseteq> set objs"
        "\<forall>err. r = Inl err \<longrightarrow> EvErrorLog ''failed to list versions: '' err \<in> set evs1"
        by blast
      have "\<forall>out. r = Inr out \<longrightarrow>
                (\<exists>os. EvDeleteObjects (bucket f) os None \<in> set ?evs \<and>
                        set (identifiersOf out) \<subseteq> set os)"
        using r(2) by (intro allI impI exI [of _ objs]) simp
      then show ?thesis using r(1,3) by (intro exI [of _ r]) simp
    next
      case 2
      with ih(2) key obtain r where r: "EvListObjectVersions (bucket f) (path f @ key) r \<in> set evs2"
        "\<forall>out. r = Inr out \<longrightarrow>
                (\<exists>objs. EvDeleteObjects (bucket f) objs None \<in> set evs2 \<and>
                        set (identifiersOf out) \<subseteq> set objs)"
        "\<forall>err. r = Inl err \<longrightarrow> EvErrorLog ''failed to list versions: '' err \<in> set evs2"
        by blast
      have "\<forall>out. r = Inr out \<longrightarrow>
                (\<exists>os. EvDeleteObjects (bucket f) os None \<in> set ?evs \<and>
                        set (identifiersOf out) \<subseteq> set os)"
        using r(2) by auto
      then show ?thesis using r(1,3) by (intro exI [of _ r]) simp
    qed
  qed
  with tr show ?case by blast
qed

lemma in_partitionStrings:
  assumes "0 < n" "key \<in> set xs"
  shows "\<exists>part\<in>set (partitionStrings xs n). key \<in> set part"
proof -
  have "key \<in> set (concat (partitionStrings xs n))"
    using assms by (simp add: concat_partitionStrings)
  then show ?thesis by auto
qed

lemma newEvents_append: "trace w' = trace w @ evs \<Longrightarrow> newEvents w w' = evs"
  by (simp add: newEvents_def)

section \<open>Deletion under versioning\<close>

text \<open>
  C1 (amended). On a folder whose versioning mode is enabled, when \<open>DeleteObjects\<close>
  returns without error, then for every listed key the versions under the prefix
  \<open>path + key\<close> were asked of the backend once, and when that listing succeeded, every
  version and every delete marker of its answer is among the identifiers of a batch
  deletion that the backend accepted. When the listing failed, the failure was written to
  the error log and the key added no identifier.
\<close>

theorem DeleteObjects_sends_listed_versions:
  assumes "isVersioningEnabled f w = (True, w1)"
    and "DeleteObjects f paths w = (None, w')"
    and "key \<in> set paths"
  shows "\<exists>res. EvListObjectVersions (bucket f) (path f @ key) res \<in> set (newEvents w w') \<and>
           (\<forall>out. res = Inr out \<longrightarrow>
              (\<exists>objs. EvDeleteObjects (bucket f) objs None \<in> set (newEvents w w') \<and>
                 (\<forall>v\<in>set (lv_Versions out).
                    \<lparr>oi_Key = ov_Key v, oi_VersionId = Some (ov_VersionId v)\<rparr> \<in> set objs) \<and>
                 (\<forall>d\<in>set (lv_DeleteMarkers out).
                    \<lparr>oi_Key = dm_Key d, oi_VersionId = Some (dm_VersionId d)\<rparr> \<in> set objs))) \<and>
           (\<forall>err. res = Inl err \<longrightarrow>
              EvErrorLog ''failed to list versions: '' err \<in> set (newEvents w w'))"
proof -
  from assms(1,2) have d: "deleteParts f True (partitionStrings paths 1000) w1 = (None, w')"
    by (simp add: DeleteObjects_def)
  from isVersioningEnabled_trace [OF assms(1)] obtain evs0 where t0: "trace w1 = trace w @ evs0"
    by blast
  from deleteParts_versions [OF d] obtain evs where t: "trace w' = trace w1 @ evs"
    and all: "\<forall>part\<in>set (partitionStrings paths 1000). \<forall>key\<in>set part.
           \<exists>res. EvListObjectVersions (bucket f) (path f @ key) res \<in> set evs \<and>
             (\<forall>out. res = Inr out \<longrightarrow>
                (\<exists>objs. EvDeleteObjects (bucket f) objs None \<in> set evs \<and>
                        set (identifiersOf out) \<subseteq> set objs)) \<and>
             (\<forall>err. res = Inl err \<longrightarrow> EvErrorLog ''failed to list versions: '' err \<in> set evs)"
    by blast
  have n: "newEvents w w' = evs0 @ evs" using t t0 by (simp add: newEvents_def)
  from in_partitionStrings [OF _ assms(3), of 1000]
  obtain part where "part \<in> set (partitionStrings paths 1000)" "key \<in> set part" by auto
  with all obtain res where r: "EvListObjectVersions (bucket f) (path f @ key) res \<in> set evs"
    "\<forall>out. res = Inr out \<longrightarrow>
                (\<exists>objs. EvDeleteObjects (bucket f) objs None \<in> set evs \<and>
                        set (identifiersOf out) \<subseteq> set objs)"
    "\<forall>err. res = Inl err \<longrightarrow> EvErrorLog ''failed to list versions: '' err \<in> set evs"
    by blast
  have "\<forall>out. res = Inr out \<longrightarrow>
              (\<exists>objs. EvDeleteObjects (bucket f) objs None \<in> set (newEvents w w') \<and>
                 (\<forall>v\<in>set (lv_Versions out).
                    \<lparr>oi_Key = ov_Key v, oi_VersionId = Some (ov_VersionId v)\<rparr> \<in> set objs) \<and>
                 (\<forall>d\<in>set (lv_DeleteMarkers out).
                    \<lparr>oi_Key = dm_Key d, oi_VersionId = Some (dm_VersionId d)\<rparr> \<in> set objs))"
  proof (intro allI impI)
    fix out assume "res = Inr out"
    with r(2) obtain objs where o: "EvDeleteObjects (bucket f) objs None \<in> set evs"
      "set (identifiersOf out) \<subseteq> set objs" by blast
    from o(2) have "(\<forall>v\<in>set (lv_Versions out).
                    \<lparr>oi_Key = ov_Key v, oi_VersionId = Some (ov_VersionId v)\<rparr> \<in> set objs) \<and>
                 (\<forall>d\<in>set (lv_DeleteMarkers out).
                    \<lparr>oi_Key = dm_Key d, oi_VersionId = Some (dm_VersionId d)\<rparr> \<in> set objs)"
      by (auto simp: identifiersOf_eq)
    with o(1) n show "\<exists>objs. EvDeleteObjects (bucket f) objs None \<in> set (newEvents w w') \<and>
                 (\<forall>v\<in>set (lv_Versions out).
                    \<lparr>oi_Key = ov_Key v, oi_VersionId = Some (ov_VersionId v)\<rparr> \<in> set objs) \<and>
                 (\<forall>d\<in>set (lv_DeleteMarkers out).
                    \<lparr>oi_Key = dm_Key d, oi_VersionId = Some (dm_VersionId d)\<rparr> \<in> set objs)"
      by (intro exI [of _ objs]) simp
  qed
  with r(1,3) n show ?thesis by (intro exI [of _ res]) simp
qed

theorem DeleteObjects_sends_listed_versions_witness:
  "isVersioningEnabled (exampleFolder versionedS3) (exampleWorld VersioningEnabled) =
     (True, exampleWorld VersioningEnabled) \<and>
   fst (DeleteObjects (exampleFolder versionedS3) [''a''] (exampleWorld VersioningEnabled)) = None \<and>
   (\<exists>res. EvListObjectVersions ''bkt'' ''base/a'' res
            \<in> set (newEvents (exampleWorld VersioningEnabled)
                 (snd (DeleteObjects (exampleFolder versionedS3) [''a''] (exampleWorld VersioningEnabled)))) \<and>
      (\<forall>out. res = Inr out \<longrightarrow>
         (\<exists>objs. EvDeleteObjects ''bkt'' objs None
                  \<in> set (newEvents (exampleWorld VersioningEnabled)
                       (snd (DeleteObjects (exampleFolder versionedS3) [''a'']
                          (exampleWorld VersioningEnabled)))) \<and>
            (\<forall>v\<in>set (lv_Versions out).
               \<lparr>oi_Key = ov_Key v, oi_VersionId = Some (ov_VersionId v)\<rparr> \<in> set objs) \<and>
            (\<forall>d\<in>set (lv_DeleteMarkers out).
               \<lparr>oi_Key = dm_Key d, oi_VersionId = Some (dm_VersionId d)\<rparr> \<in> set objs))) \<and>
      (\<forall>err. res = Inl err \<longrightarrow>
         EvErrorLog ''failed to list versions: '' err
           \<in> set (newEvents (exampleWorld VersioningEnabled)
                (snd (DeleteObjects (exampleFolder versionedS3) [''a'']
                   (exampleWorld VersioningEnabled))))))"
proof -
  let ?f = "exampleFolder versionedS3" and ?w = "exampleWorld VersioningEnabled"
  have h1: "isVersioningEnabled ?f ?w = (True, ?w)"
    by (simp add: isVersioningEnabled_def exampleFolder_def exampleWorld_def exampleConfig_def)
  have h2: "fst (DeleteObjects ?f [''a''] ?w) = None"
    by (simp add: DeleteObjects_def isVersioningEnabled_def exampleFolder_def exampleWorld_def
        exampleConfig_def okS3_def versionedS3_def partitionStrings_unfold partitionToObjects_def
        getObjectVersions_def emit_def Let_def)
  then have h3: "DeleteObjects ?f [''a''] ?w = (None, snd (DeleteObjects ?f [''a''] ?w))"
    by (metis prod.collapse)
  have b: "bucket ?f = ''bkt''" "path ?f @ ''a'' = ''base/a''" by (simp_all add: exampleFolder_def)
  show ?thesis
    using h1 h2 DeleteObjects_sends_listed_versions [OF h1 h3, of "''a''"]
    unfolding b by simp
qed

text \<open>
  C1 (counterexample). Versioning is enabled and the version listing of the key \<open>a\<close>
  fails. \<open>DeleteObjects\<close> of \<open>a\<close> and \<open>b\<close> writes the failure to the error log, sends a batch
  that holds the version of \<open>b\<close> only, and returns nil: the history of \<open>a\<close> was not
  resolved, and no revision of \<open>a\<close> was deleted.
\<close>

theorem DeleteObjects_listing_failure_counterexample:
  "DeleteObjects (exampleFolder flakyListS3) [''a'', ''b''] (exampleWorld VersioningEnabled) =
   (None,
    \<lparr>heap = (\<lambda>a. exampleConfig VersioningEnabled), s3 = 3,
     trace = [EvListObjectVersions ''bkt'' ''base/a'' (Inl (PlainError ''timeout'')),
              EvErrorLog ''failed to list versions: '' (PlainError ''timeout''),
              EvListObjectVersions ''bkt'' ''base/b'' (Inr (oneVersion ''base/b'')),
              EvDeleteObjects ''bkt'' [\<lparr>oi_Key = ''base/b'', oi_VersionId = Some ''v1''\<rparr>]
                None]\<rparr>)"
  by (simp add: DeleteObjects_def isVersioningEnabled_def exampleFolder_def exampleWorld_def
      exampleConfig_def okS3_def flakyListS3_def oneVersion_def partitionStrings_unfold
      partitionToObjects_def getObjectVersions_def identifiersOf_def emit_def Let_def)

section \<open>The override of the versioning mode\<close>

text \<open>
  C2 (counterexample). The mode is unresolved and the bucket does not report versioning:
  \<open>SetVersioningEnabled(true)\<close> asks the backend and leaves the mode disabled, not enabled.
\<close>

theorem SetVersioningEnabled_true_counterexample:
  "EnableVersioning
     (heap (SetVersioningEnabled (exampleFolder okS3) True (exampleWorld VersioningDefault)) 0)
     \<noteq> VersioningEnabled \<and>
   trace (SetVersioningEnabled (exampleFolder okS3) True (exampleWorld VersioningDefault))
     \<noteq> trace (exampleWorld VersioningDefault)"
  by (simp add: SetVersioningEnabled_def isVersioningEnabled_def exampleFolder_def exampleWorld_def
      exampleConfig_def okS3_def modes_distinct BucketVersioningStatusEnabled_def Let_def)

text \<open>
  C2 (amended). \<open>SetVersioningEnabled(false)\<close> sets the mode to disabled and calls nothing.
  \<open>SetVersioningEnabled(true)\<close> sets the mode to enabled only when \<open>isVersioningEnabled\<close>
  answers true (the mode is already enabled, or it is unresolved and the backend reports
  the bucket's versioning as enabled) and to disabled otherwise; it queries the backend
  exactly when the mode is unresolved.
\<close>

theorem SetVersioningEnabled_guarded:
  "EnableVersioning (heap (SetVersioningEnabled f False w) (config f)) = VersioningDisabled \<and>
   trace (SetVersioningEnabled f False w) = trace w \<and>
   s3 (SetVersioningEnabled f False w) = s3 w \<and>
   EnableVersioning (heap (SetVersioningEnabled f True w) (config f)) =
     (if EnableVersioning (heap w (config f)) = VersioningEnabled \<or>
         (EnableVersioning (heap w (config f)) = VersioningDefault \<and>
          fst (GetBucketVersioning (s3API f) (bucket f) (s3 w)) =
            Inr (Some BucketVersioningStatusEnabled))
      then VersioningEnabled else VersioningDisabled) \<and>
   trace (SetVersioningEnabled f True w) =
     (if EnableVersioning (heap w (config f)) = VersioningDefault
      then trace w @ [EvGetBucketVersioning (bucket f)
                        (fst (GetBucketVersioning (s3API f) (bucket f) (s3 w)))]
      else trace w)"
  by (auto simp: SetVersioningEnabled_def isVersioningEnabled_def modes_distinct Let_def
      split: prod.splits sum.splits)

theorem SetVersioningEnabled_guarded_witness:
  "EnableVersioning
     (heap (SetVersioningEnabled (exampleFolder okS3) True (exampleWorld VersioningEnabled)) 0)
     = VersioningEnabled \<and>
   trace (SetVersioningEnabled (exampleFolder okS3) True (exampleWorld VersioningEnabled)) = [] \<and>
   EnableVersioning
     (heap (SetVersioningEnabled (exampleFolder okS3) True (exampleWorld VersioningDisabled)) 0)
     = VersioningDisabled \<and>
   EnableVersioning
     (heap (SetVersioningEnabled (exampleFolder okS3) False (exampleWorld VersioningEnabled)) 0)
     = VersioningDisabled"
  using SetVersioningEnabled_guarded [of "exampleFolder okS3" "exampleWorld VersioningEnabled"]
    SetVersioningEnabled_guarded [of "exampleFolder okS3" "exampleWorld VersioningDisabled"]
  by (simp add: exampleFolder_def exampleWorld_def exampleConfig_def modes_distinct)

section \<open>Not-found translation\<close>

text \<open>
  C5. When the backend's answer to the existence probe is an error, \<open>Exists\<close> returns
  \<open>(false, nil)\<close> if the error is an AWS error of code \<open>NotFound\<close> or \<open>NoSuchKey\<close>, and
  otherwise \<open>false\<close> with the error wrapped in a message that names the full key. When
  the backend's answer to the read is an error, \<open>ReadObject\<close> returns the
  \<open>ObjectNotFound\<close> error of the full key for those two codes, and otherwise the error
  wrapped in a message that names the full key.
\<close>

theorem not_found_translation:
  "(HeadObject (s3API f) (bucket f) (path f @ rel) (s3 w) = (Some err, b) \<longrightarrow>
      fst (Exists f rel w) =
        (if \<exists>msg. err = AwsError ''NotFound'' msg \<or> err = AwsError ''NoSuchKey'' msg
         then (False, None)
         else (False, Some (Wrapf err
                 (''failed to check s3 object '' @ quoted (path f @ rel) @ '' existence''))))) \<and>
   (GetObject (s3API f) (bucket f) (path f @ rel) (s3 w) = (Inl err, b) \<longrightarrow>
      fst (ReadObject f rel w) =
        (if \<exists>msg. err = AwsError ''NotFound'' msg \<or> err = AwsError ''NoSuchKey'' msg
         then Inl (ObjectNotFoundError (path f @ rel))
         else Inl (Wrapf err (''failed to read object: '' @ quoted (path f @ rel) @ '' from S3''))))"
proof -
  have c: "isAwsNotExist err = (\<exists>msg. err = AwsError ''NotFound'' msg \<or> err = AwsError ''NoSuchKey'' msg)"
    by (cases err) (auto simp: NotFoundAWSErrorCode_def NoSuchKeyAWSErrorCode_def)
  show ?thesis
    unfolding c [symmetric]
    by (simp add: Exists_def ReadObject_def Let_def)
qed

theorem not_found_translation_witness:
  "fst (Exists (exampleFolder notFoundS3) ''x'' (exampleWorld VersioningDefault)) = (False, None) \<and>
   fst (ReadObject (exampleFolder notFoundS3) ''x'' (exampleWorld VersioningDefault)) =
     Inl (ObjectNotFoundError ''base/x'') \<and>
   fst (Exists (exampleFolder deniedS3) ''x'' (exampleWorld VersioningDefault)) =
     (False, Some (Wrapf (AwsError ''AccessDenied'' ''denied'')
        (''failed to check s3 object '' @ quoted ''base/x'' @ '' existence''))) \<and>
   fst (ReadObject (exampleFolder deniedS3) ''x'' (exampleWorld VersioningDefault)) =
     Inl (Wrapf (PlainError ''connection reset'')
        (''failed to read object: '' @ quoted ''base/x'' @ '' from S3''))"
  using not_found_translation [of "exampleFolder notFoundS3" "''x''" "exampleWorld VersioningDefault"
      "AwsError ''NotFound'' ''Not Found''" 1]
    not_found_translation [of "exampleFolder notFoundS3" "''x''" "exampleWorld VersioningDefault"
      "AwsError ''NoSuchKey'' ''no such key''" 1]
    not_found_translation [of "exampleFolder deniedS3" "''x''" "exampleWorld VersioningDefault"
      "AwsError ''AccessDenied'' ''denied''" 1]
    not_found_translation [of "exampleFolder deniedS3" "''x''" "exampleWorld VersioningDefault"
      "PlainError ''connection reset''" 1]
  by (simp add: exampleFolder_def exampleWorld_def notFoundS3_def deniedS3_def okS3_def)

section \<open>Deletion without versioning\<close>

lemma partitionToObjects_plain:
  "partitionToObjects f keys False w =
     (map (\<lambda>key. \<lparr>oi_Key = path f @ key, oi_VersionId = None\<rparr>) keys, w)"
  by (simp add: partitionToObjects_def partitionToObjectsLoop_plain)

text \<open>
  Without versioning, the batches go to the backend one by one, each with the keys of
  its block and nothing else, until one is refused.
\<close>

lemma deleteParts_plain:
  "deleteParts f False parts w = (r, w') \<Longrightarrow>
     heap w' = heap w \<and>
     (\<exists>n rs. n \<le> length parts \<and> length rs = n \<and>
        trace w' = trace w @
          map (\<lambda>(part, res). EvDeleteObjects (bucket f)
                 (map (\<lambda>key. \<lparr>oi_Key = path f @ key, oi_VersionId = None\<rparr>) part) res)
            (zip (take n parts) rs) \<and>
        (case r of
           None \<Rightarrow> n = length parts \<and> rs = replicate n None
         | Some e \<Rightarrow> \<exists>cause. 0 < n \<and> rs = replicate (n - 1) None @ [Some cause] \<and>
              e = Wrapf cause (''failed to delete s3 object: '' @
                     quoted (formatStrings (parts ! (n - 1))))))"
proof (induction parts arbitrary: w)
  case Nil
  then show ?case by auto
next
  case (Cons part parts)
  let ?objs = "map (\<lambda>key. \<lparr>oi_Key = path f @ key, oi_VersionId = None\<rparr>) part"
  let ?ev = "\<lambda>(part, res). EvDeleteObjects (bucket f)
                 (map (\<lambda>key. \<lparr>oi_Key = path f @ key, oi_VersionId = None\<rparr>) part) res"
  obtain res b where d: "S3DeleteObjects (s3API f) (bucket f) ?objs (s3 w) = (res, b)"
    by (cases "S3DeleteObjects (s3API f) (bucket f) ?objs (s3 w)")
  let ?w2 = "emit (EvDeleteObjects (bucket f) ?objs res) b w"
  show ?case
  proof (cases res)
    case (Some cause)
    with Cons.prems d have r: "r = Some (Wrapf cause (''failed to delete s3 object: '' @
                     quoted (formatStrings part)))" and w': "w' = ?w2"
      by (simp_all add: partitionToObjects_plain Let_def)
    have "trace w' = trace w @ map ?ev (zip (take 1 (part # parts)) [Some cause])"
      using w' Some by simp
    then show ?thesis using r w'
      by (intro conjI exI [of _ "1::nat"] exI [of _ "[Some cause]"]) simp_all
  next
    case None
    with Cons.prems d have rec: "deleteParts f False parts ?w2 = (r, w')"
      by (simp add: partitionToObjects_plain Let_def)
    from Cons.IH [OF rec] obtain n rs where ih: "heap w' = heap ?w2" "n \<le> length parts"
      "length rs = n" "trace w' = trace ?w2 @ map ?ev (zip (take n parts) rs)"
      "case r of
           None \<Rightarrow> n = length parts \<and> rs = replicate n None
         | Some e \<Rightarrow> \<exists>cause. 0 < n \<and> rs = replicate (n - 1) None @ [Some cause] \<and>
              e = Wrapf cause (''failed to delete s3 object: '' @
                     quoted (formatStrings (parts ! (n - 1))))"
      by blast
    have t: "trace w' = trace w @ map ?ev (zip (take (Suc n) (part # parts)) (None # rs))"
      using ih(4) None by simp
    have c: "case r of
           None \<Rightarrow> Suc n = length (part # parts) \<and> None # rs = replicate (Suc n) None
         | Some e \<Rightarrow> \<exists>cause. 0 < Suc n \<and> None # rs = replicate (Suc n - 1) None @ [Some cause] \<and>
              e = Wrapf cause (''failed to delete s3 object: '' @
                     quoted (formatStrings ((part # parts) ! (Suc n - 1))))"
    proof (cases r)
      case None
      then show ?thesis using ih(5) by simp
    next
      case (Some e)
      with ih(5) obtain cause where "0 < n" "rs = replicate (n - 1) None @ [Some cause]"
        "e = Wrapf cause (''failed to delete s3 object: '' @
                     quoted (formatStrings (parts ! (n - 1))))" by auto
      then show ?thesis using Some by (cases n) auto
    qed
    show ?thesis
      using ih(1,2,3) t c
      by (intro conjI exI [of _ "Suc n"] exI [of _ "None # rs"]) simp_all
  qed
qed

section \<open>What a listing returns\<close>

lemma addContents_eq:
  "addContents f contents acc =
     acc @ map (\<lambda>object. NewLocalObject (TrimPrefix (obj_Key object) (path f))
                  (obj_LastModified object) (obj_Size object))
             (filter (\<lambda>object. obj_Key object \<noteq> path f) contents)"
  unfolding addContents_def by (simp add: foldl_snoc_filter)

lemma foldl_snoc_cases:
  "foldl (\<lambda>acc x. if skip x then acc else if c x then acc @ [g x] else acc @ [h x]) acc xs =
     acc @ map (\<lambda>x. if c x then g x else h x) (filter (\<lambda>x. \<not> skip x) xs)"
  by (induction xs arbitrary: acc) auto

lemma addVersions_eq:
  "addVersions f versions acc =
     acc @ map (objectOf f) (filter (\<lambda>r. revKey r \<noteq> path f) (map Version versions))"
  unfolding addVersions_def
  by (simp add: foldl_snoc_cases filter_map comp_def objectOf_def)

lemma addDeleteMarkers_eq:
  "addDeleteMarkers f markers acc =
     acc @ map (objectOf f) (filter (\<lambda>r. revKey r \<noteq> path f) (map Marker markers))"
  unfolding addDeleteMarkers_def
  by (simp add: foldl_snoc_cases filter_map comp_def objectOf_def)

lemma foldl_listFunc_objects:
  "fst (foldl (listFunc sp f w) acc pages) =
     fst acc @ map (\<lambda>object. NewLocalObject (TrimPrefix (obj_Key object) (path f))
                      (obj_LastModified object) (obj_Size object))
                 (filter (\<lambda>object. obj_Key object \<noteq> path f) (concat (map lo_Contents pages)))"
  by (induction pages arbitrary: acc) (simp_all add: listFunc_def addContents_eq)

lemma foldl_versionsListFunc_objects:
  "fst (foldl (versionsListFunc sp f w) acc pages) =
     fst acc @ map (objectOf f)
                 (filter (\<lambda>r. revKey r \<noteq> path f) (concat (map revisionsOf pages)))"
  by (induction pages arbitrary: acc)
    (simp_all add: versionsListFunc_def addVersions_eq addDeleteMarkers_eq revisionsOf_def)

lemma isVersioningEnabled_events:
  "isVersioningEnabled f w = (on, w1) \<Longrightarrow>
     \<exists>evs. trace w1 = trace w @ evs \<and> (\<forall>ev\<in>set evs. \<exists>r. ev = EvGetBucketVersioning (bucket f) r)"
  by (auto simp: isVersioningEnabled_def Let_def split: if_splits prod.splits sum.splits)

lemma listVersions_result:
  "listVersions sp f prefix w = ((objects, subFolders, None), w') \<Longrightarrow>
     \<exists>pages err. trace w' = trace w @ [EvListObjectVersionsPages (bucket f) prefix pages err] \<and>
       heap w' = heap w \<and>
       objects = map (objectOf f) (filter (\<lambda>r. revKey r \<noteq> path f) (concat (map revisionsOf pages)))"
  by (auto simp: listVersions_def Let_def foldl_versionsListFunc_objects
      split: prod.splits option.splits if_splits)

lemma listObjectsPages_result:
  "listObjectsPages sp f prefix ([], []) w = ((acc, err), w') \<Longrightarrow>
     \<exists>pages. (trace w' = trace w @ [EvListObjectsPages (bucket f) prefix pages err] \<or>
              trace w' = trace w @ [EvListObjectsV2Pages (bucket f) prefix pages err]) \<and>
       heap w' = heap w \<and>
       fst acc = map (\<lambda>object. NewLocalObject (TrimPrefix (obj_Key object) (path f))
                      (obj_LastModified object) (obj_Size object))
                 (filter (\<lambda>object. obj_Key object \<noteq> path f) (concat (map lo_Contents pages)))"
  by (auto simp: listObjectsPages_def listObjectsPagesV1_def listObjectsPagesV2_def
      foldl_listFunc_objects split: prod.splits if_splits)

lemma no_keys_in_versioning_query:
  "\<forall>ev\<in>set evs. \<exists>r. ev = EvGetBucketVersioning bkt r \<Longrightarrow>
     concat (map listedKeys evs) = [] \<and> concat (map listedRevisions evs) = []"
  by (induction evs) auto

lemma ListFolder_events:
  assumes "ListFolder sp f w = ((objects, subFolders, None), w')"
  shows "(\<exists>pages :: ListObjectsOutput list. concat (map listedKeys (newEvents w w')) =
              concat (map (\<lambda>page. map obj_Key (lo_Contents page)) pages) \<and>
            concat (map listedRevisions (newEvents w w')) = [] \<and>
            \<not> fst (isVersioningEnabled f w) \<and>
            objects = map (\<lambda>object. NewLocalObject (TrimPrefix (obj_Key object) (path f))
                      (obj_LastModified object) (obj_Size object))
                 (filter (\<lambda>object. obj_Key object \<noteq> path f) (concat (map lo_Contents pages)))) \<or>
         (\<exists>pages. concat (map listedRevisions (newEvents w w')) = concat (map revisionsOf pages) \<and>
            concat (map listedKeys (newEvents w w')) = map revKey (concat (map revisionsOf pages)) \<and>
            fst (isVersioningEnabled f w) \<and>
            objects = map (objectOf f)
              (filter (\<lambda>r. revKey r \<noteq> path f) (concat (map revisionsOf pages))))"
proof -
  obtain on w1 where v: "isVersioningEnabled f w = (on, w1)" by (cases "isVersioningEnabled f w")
  from isVersioningEnabled_events [OF v] obtain evs0 where
    e0: "trace w1 = trace w @ evs0" "\<forall>ev\<in>set evs0. \<exists>r. ev = EvGetBucketVersioning (bucket f) r"
    by blast
  note z = no_keys_in_versioning_query [OF e0(2)]
  show ?thesis
  proof (cases on)
    case True
    with assms v have "listVersions sp f (path f) w1 = ((objects, subFolders, None), w')"
      by (auto simp: ListFolder_def split: prod.splits option.splits)
    from listVersions_result [OF this] obtain pages err where
      l: "trace w' = trace w1 @ [EvListObjectVersionsPages (bucket f) (path f) pages err]"
        "objects = map (objectOf f) (filter (\<lambda>r. revKey r \<noteq> path f) (concat (map revisionsOf pages)))"
      by blast
    have n: "newEvents w w' = evs0 @ [EvListObjectVersionsPages (bucket f) (path f) pages err]"
      using l(1) e0(1) by (simp add: newEvents_def)
    have "concat (map listedRevisions (newEvents w w')) = concat (map revisionsOf pages) \<and>
            concat (map listedKeys (newEvents w w')) = map revKey (concat (map revisionsOf pages)) \<and>
            fst (isVersioningEnabled f w) \<and>
            objects = map (objectOf f)
              (filter (\<lambda>r. revKey r \<noteq> path f) (concat (map revisionsOf pages)))"
      using z v True l(2) unfolding n by simp
    then show ?thesis by (rule disjI2 [OF exI])
  next
    case False
    with assms v obtain acc err where
      p: "listObjectsPages sp f (path f) ([], []) w1 = ((acc, err), w')" and o: "objects = fst acc"
      by (auto simp: ListFolder_def split: prod.splits option.splits if_splits)
    from listObjectsPages_result [OF p] obtain pages where
      l: "trace w' = trace w1 @ [EvListObjectsPages (bucket f) (path f) pages err] \<or>
          trace w' = trace w1 @ [EvListObjectsV2Pages (bucket f) (path f) pages err]"
        "fst acc = map (\<lambda>object. NewLocalObject (TrimPrefix (obj_Key object) (path f))
                      (obj_LastModified object) (obj_Size object))
                 (filter (\<lambda>object. obj_Key object \<noteq> path f) (concat (map lo_Contents pages)))"
      by blast
    have n: "newEvents w w' = evs0 @ [EvListObjectsPages (bucket f) (path f) pages err] \<or>
             newEvents w w' = evs0 @ [EvListObjectsV2Pages (bucket f) (path f) pages err]"
      using l(1) e0(1) by (auto simp: newEvents_def)
    then have "concat (map listedKeys (newEvents w w')) =
              concat (map (\<lambda>page. map obj_Key (lo_Contents page)) pages) \<and>
            concat (map listedRevisions (newEvents w w')) = [] \<and>
            \<not> fst (isVersioningEnabled f w) \<and>
            objects = map (\<lambda>object. NewLocalObject (TrimPrefix (obj_Key object) (path f))
                      (obj_LastModified object) (obj_Size object))
                 (filter (\<lambda>object. obj_Key object \<noteq> path f) (concat (map lo_Contents pages)))"
      using z v False l(2) o by auto
    then show ?thesis by (rule disjI1 [OF exI])
  qed
qed

lemma filter_keys_concat:
  "filter P (concat (map (\<lambda>page. map k (c page)) pages)) =
     map k (filter (\<lambda>x. P (k x)) (concat (map c pages)))"
  by (induction pages) (simp_all add: filter_map comp_def)

section \<open>The folder's own prefix\<close>

text \<open>
  C7. When \<open>ListFolder\<close> returns without error, the objects it returns are, in the order
  of the listing, the entries the backend listed whose key is not the folder's own
  prefix, each under its key without that prefix: the entry of the prefix itself is left
  out and every other entry is returned. The keys are those of the plain listing or of
  the version-aware one, whichever the call made.
\<close>

theorem ListFolder_excludes_own_prefix:
  assumes "ListFolder sp f w = ((objects, subFolders, None), w')"
  shows "map objectName objects =
           map (\<lambda>key. TrimPrefix key (path f))
             (filter (\<lambda>key. key \<noteq> path f) (concat (map listedKeys (newEvents w w'))))"
  using ListFolder_events [OF assms]
  by (auto simp: filter_map comp_def filter_keys_concat
      NewLocalObject_def NewLocalObjectWithAdditionalInfo_def objectOf_def)

lemma example_plain_listing:
  "ListFolder exampleStorage (exampleFolder listingS3) (exampleWorld VersioningDisabled) =
      (([NewLocalObject ''a'' 2 7, NewLocalObject ''b'' 3 9],
        [\<lparr>s3API = listingS3, uploader = okUploader, bucket = ''bkt'', path = ''base/sub/'',
          config = 0\<rparr>], None),
       \<lparr>heap = (\<lambda>a. exampleConfig VersioningDisabled), s3 = 1,
        trace = [EvListObjectsV2Pages ''bkt'' ''base/'' examplePages None]\<rparr>)"
  by (simp add: ListFolder_def isVersioningEnabled_def listObjectsPages_def listObjectsPagesV2_def
      listFunc_def addContents_def addSubFolders_def NewFolder_def TrimPrefix_def
      exampleFolder_def exampleWorld_def exampleConfig_def exampleStorage_def modes_distinct
      listingS3_def okS3_def examplePages_def emit_def)

lemma example_versioned_listing:
  "ListFolder exampleStorage (exampleFolder listingS3) (exampleWorld VersioningEnabled) =
      ((map (objectOf (exampleFolder listingS3)) (filter (\<lambda>r. revKey r \<noteq> ''base/'')
              (concat (map revisionsOf exampleVersionPages))),
        [\<lparr>s3API = listingS3, uploader = okUploader, bucket = ''bkt'', path = ''base/sub/'',
          config = 0\<rparr>], None),
       \<lparr>heap = (\<lambda>a. exampleConfig VersioningEnabled), s3 = 1,
        trace = [EvListObjectVersionsPages ''bkt'' ''base/'' exampleVersionPages None]\<rparr>)"
  by (simp add: ListFolder_def isVersioningEnabled_def listVersions_def versionsListFunc_def
      addVersions_def addDeleteMarkers_def addSubFolders_def NewFolder_def TrimPrefix_def
      exampleFolder_def exampleWorld_def exampleConfig_def exampleStorage_def modes_distinct
      listingS3_def okS3_def exampleVersionPages_def emit_def objectOf_def revisionsOf_def)

theorem ListFolder_excludes_own_prefix_witness:
  "fst (ListFolder exampleStorage (exampleFolder listingS3) (exampleWorld VersioningDisabled)) =
     ([NewLocalObject ''a'' 2 7, NewLocalObject ''b'' 3 9],
      [\<lparr>s3API = listingS3, uploader = okUploader, bucket = ''bkt'', path = ''base/sub/'',
          config = 0\<rparr>], None) \<and>
   map objectName
     (fst (fst (ListFolder exampleStorage (exampleFolder listingS3) (exampleWorld VersioningDisabled)))) =
   map (\<lambda>key. TrimPrefix key ''base/'')
     (filter (\<lambda>key. key \<noteq> ''base/'') [''base/'', ''base/a'', ''base/b'']) \<and>
   map objectName
     (fst (fst (ListFolder exampleStorage (exampleFolder listingS3) (exampleWorld VersioningEnabled)))) =
   map (\<lambda>key. TrimPrefix key ''base/'')
     (filter (\<lambda>key. key \<noteq> ''base/'') [''base/'', ''base/a'', ''base/a'', ''base/a'', ''base/b''])"
proof -
  let ?f = "exampleFolder listingS3"
  let ?wd = "exampleWorld VersioningDisabled" and ?we = "exampleWorld VersioningEnabled"
  have pf: "path ?f = ''base/''" by (simp add: exampleFolder_def)
  have k1: "concat (map listedKeys (newEvents ?wd
       \<lparr>heap = (\<lambda>a. exampleConfig VersioningDisabled), s3 = 1,
        trace = [EvListObjectsV2Pages ''bkt'' ''base/'' examplePages None]\<rparr>)) =
       [''base/'', ''base/a'', ''base/b'']"
    by (simp add: newEvents_def exampleWorld_def examplePages_def)
  have k2: "concat (map listedKeys (newEvents ?we
       \<lparr>heap = (\<lambda>a. exampleConfig VersioningEnabled), s3 = 1,
        trace = [EvListObjectVersionsPages ''bkt'' ''base/'' exampleVersionPages None]\<rparr>)) =
       [''base/'', ''base/a'', ''base/a'', ''base/a'', ''base/b'']"
    by (simp add: newEvents_def exampleWorld_def exampleVersionPages_def revisionsOf_def)
  show ?thesis
    using ListFolder_excludes_own_prefix [OF example_plain_listing]
      ListFolder_excludes_own_prefix [OF example_versioned_listing]
    unfolding k1 k2 pf by (simp add: example_plain_listing example_versioned_listing)
qed

section \<open>Version tags of a listing\<close>

text \<open>
  C6 (counterexample). The version-aware listing delivers a version of \<open>base/a\<close> and a
  delete marker whose key is the folder's own prefix \<open>base/\<close>: the only object returned is
  the one of the version, and the delete marker is returned as no object at all.
\<close>

theorem ListFolder_own_prefix_marker_counterexample:
  "ListFolder exampleStorage (exampleFolder ownMarkerS3) (exampleWorld VersioningEnabled) =
     (([NewLocalObjectWithAdditionalInfo ''a'' 30 7 ''v3 LATEST''], [], None),
      \<lparr>heap = (\<lambda>a. exampleConfig VersioningEnabled), s3 = 1,
       trace = [EvListObjectVersionsPages ''bkt'' ''base/'' ownMarkerPages None]\<rparr>) \<and>
   lv_DeleteMarkers (hd ownMarkerPages) =
     [\<lparr>dm_Key = ''base/'', dm_VersionId = ''v9'', dm_IsLatest = True, dm_LastModified = 90\<rparr>]"
  by (simp add: ListFolder_def isVersioningEnabled_def listVersions_def versionsListFunc_def
      addVersions_def addDeleteMarkers_def addSubFolders_def NewFolder_def TrimPrefix_def
      exampleFolder_def exampleWorld_def exampleConfig_def exampleStorage_def modes_distinct
      ownMarkerS3_def okS3_def ownMarkerPages_def emit_def)

text \<open>
  C6 (amended). When \<open>ListFolder\<close> runs on a folder with versioning enabled and returns
  without error, the objects it returns stand, in order, for the revisions (versions and
  delete markers) that the version-aware listing delivered and whose key is not the
  folder's own prefix. The additional info of each object is the revision's version id
  followed by \<open>LATEST\<close> exactly when the backend flags the revision as the latest, and
  the bare version id otherwise; every delete marker whose key is not the folder's own
  prefix is returned as an object of size 0.
\<close>

theorem ListFolder_version_tags:
  assumes "isVersioningEnabled f w = (True, w1)"
    and "ListFolder sp f w = ((objects, subFolders, None), w')"
  shows "list_all2
           (\<lambda>r ob. (additionalInfo ob = revVersionId r @ '' LATEST'') = revIsLatest r \<and>
                   (\<not> revIsLatest r \<longrightarrow> additionalInfo ob = revVersionId r) \<and>
                   (isMarker r \<longrightarrow> fileSize ob = 0) \<and>
                   objectName ob = TrimPrefix (revKey r) (path f))
           (filter (\<lambda>r. revKey r \<noteq> path f) (concat (map listedRevisions (newEvents w w'))))
           objects"
proof -
  from ListFolder_events [OF assms(2)] assms(1) obtain pages where
    p: "concat (map listedRevisions (newEvents w w')) = concat (map revisionsOf pages)"
       "objects = map (objectOf f) (filter (\<lambda>r. revKey r \<noteq> path f) (concat (map revisionsOf pages)))"
    by auto
  have "\<And>r. (additionalInfo (objectOf f r) = revVersionId r @ '' LATEST'') = revIsLatest r \<and>
          (\<not> revIsLatest r \<longrightarrow> additionalInfo (objectOf f r) = revVersionId r) \<and>
          (isMarker r \<longrightarrow> fileSize (objectOf f r) = 0) \<and>
          objectName (objectOf f r) = TrimPrefix (revKey r) (path f)"
    subgoal for r
      by (cases r) (simp_all add: objectOf_def NewLocalObjectWithAdditionalInfo_def)
    done
  then show ?thesis
    unfolding p by (simp add: list_all2_map2 list_all2_same)
qed

theorem ListFolder_version_tags_witness:
  "isVersioningEnabled (exampleFolder listingS3) (exampleWorld VersioningEnabled) =
     (True, exampleWorld VersioningEnabled) \<and>
   map additionalInfo
     (fst (fst (ListFolder exampleStorage (exampleFolder listingS3) (exampleWorld VersioningEnabled)))) =
     [''v3 LATEST'', ''v1'', ''v2'', ''v4 LATEST''] \<and>
   map fileSize
     (fst (fst (ListFolder exampleStorage (exampleFolder listingS3) (exampleWorld VersioningEnabled)))) =
     [7, 5, 0, 0] \<and>
   list_all2
     (\<lambda>r ob. (additionalInfo ob = revVersionId r @ '' LATEST'') = revIsLatest r \<and>
             (\<not> revIsLatest r \<longrightarrow> additionalInfo ob = revVersionId r) \<and>
             (isMarker r \<longrightarrow> fileSize ob = 0) \<and>
             objectName ob = TrimPrefix (revKey r) ''base/'')
     (filter (\<lambda>r. revKey r \<noteq> ''base/'') (concat (map revisionsOf exampleVersionPages)))
     (fst (fst (ListFolder exampleStorage (exampleFolder listingS3) (exampleWorld VersioningEnabled))))"
proof -
  let ?f = "exampleFolder listingS3" and ?we = "exampleWorld VersioningEnabled"
  have h1: "isVersioningEnabled ?f ?we = (True, ?we)"
    by (simp add: isVersioningEnabled_def exampleFolder_def exampleWorld_def exampleConfig_def)
  have pf: "path ?f = ''base/''" by (simp add: exampleFolder_def)
  have kr: "concat (map listedRevisions (newEvents ?we
       \<lparr>heap = (\<lambda>a. exampleConfig VersioningEnabled), s3 = 1,
        trace = [EvListObjectVersionsPages ''bkt'' ''base/'' exampleVersionPages None]\<rparr>)) =
       concat (map revisionsOf exampleVersionPages)"
    by (simp add: newEvents_def exampleWorld_def)
  have vals: "map additionalInfo (fst (fst (ListFolder exampleStorage ?f ?we))) =
       [''v3 LATEST'', ''v1'', ''v2'', ''v4 LATEST''] \<and>
     map fileSize (fst (fst (ListFolder exampleStorage ?f ?we))) = [7, 5, 0, 0]"
    by (simp add: example_versioned_listing exampleVersionPages_def revisionsOf_def objectOf_def
        NewLocalObjectWithAdditionalInfo_def)
  show ?thesis
    using ListFolder_version_tags [OF h1 example_versioned_listing] h1 vals
    unfolding kr pf by (simp add: example_versioned_listing)
qed

section \<open>A failed versioning query\<close>

lemma ListFolder_plain:
  assumes "isVersioningEnabled f w = (False, w1)"
  shows "\<exists>pages e.
           (trace (snd (ListFolder sp f w)) =
              trace w1 @ [EvListObjectsPages (bucket f) (path f) pages e] \<or>
            trace (snd (ListFolder sp f w)) =
              trace w1 @ [EvListObjectsV2Pages (bucket f) (path f) pages e]) \<and>
           heap (snd (ListFolder sp f w)) = heap w1 \<and>
           (\<forall>ob\<in>set (fst (fst (ListFolder sp f w))). additionalInfo ob = [])"
proof -
  obtain acc err w2 where p: "listObjectsPages sp f (path f) ([], []) w1 = ((acc, err), w2)"
    by (metis prod.collapse)
  from listObjectsPages_result [OF p] obtain pages where
    l: "trace w2 = trace w1 @ [EvListObjectsPages (bucket f) (path f) pages err] \<or>
        trace w2 = trace w1 @ [EvListObjectsV2Pages (bucket f) (path f) pages err]"
      "heap w2 = heap w1"
      "fst acc = map (\<lambda>object. NewLocalObject (TrimPrefix (obj_Key object) (path f))
                      (obj_LastModified object) (obj_Size object))
                 (filter (\<lambda>object. obj_Key object \<noteq> path f) (concat (map lo_Contents pages)))"
    by blast
  have w2: "snd (ListFolder sp f w) = w2"
    using assms p by (simp add: ListFolder_def split: option.splits)
  have "\<forall>ob\<in>set (fst acc). additionalInfo ob = []"
    unfolding l(3) by (auto simp: NewLocalObject_def NewLocalObjectWithAdditionalInfo_def)
  moreover have "fst (fst (ListFolder sp f w)) = [] \<or> fst (fst (ListFolder sp f w)) = fst acc"
    using assms p by (simp add: ListFolder_def split: option.splits)
  ultimately have "\<forall>ob\<in>set (fst (fst (ListFolder sp f w))). additionalInfo ob = []" by auto
  with l(1,2) w2 show ?thesis by auto
qed

text \<open>
  C10. The versioning mode of the folder is unresolved and the backend's answer to the
  get-bucket-versioning query is an error. Then \<open>isVersioningEnabled\<close> returns false and
  leaves the mode unresolved, so that the next call asks the backend again. \<open>ListFolder\<close>
  goes on with the plain listing: after the failed query it makes one plain listing call
  and no version-aware one, and its objects carry no version tag. \<open>DeleteObjects\<close> goes on
  without versions: after the failed query it sends, batch by batch, the bare keys of the
  listed paths and lists no versions. Both leave the mode unresolved.
\<close>

theorem failed_versioning_query_is_not_cached:
  assumes "EnableVersioning (heap w (config f)) = VersioningDefault"
    and "GetBucketVersioning (s3API f) (bucket f) (s3 w) = (Inl err, b)"
  shows "isVersioningEnabled f w = (False, emit (EvGetBucketVersioning (bucket f) (Inl err)) b w) \<and>
     EnableVersioning (heap (snd (isVersioningEnabled f w)) (config f)) = VersioningDefault \<and>
     newEvents (snd (isVersioningEnabled f w)) (snd (isVersioningEnabled f (snd (isVersioningEnabled f w)))) =
       [EvGetBucketVersioning (bucket f) (fst (GetBucketVersioning (s3API f) (bucket f) b))] \<and>
     (\<exists>pages e.
        newEvents w (snd (ListFolder sp f w)) =
          [EvGetBucketVersioning (bucket f) (Inl err), EvListObjectsPages (bucket f) (path f) pages e] \<or>
        newEvents w (snd (ListFolder sp f w)) =
          [EvGetBucketVersioning (bucket f) (Inl err), EvListObjectsV2Pages (bucket f) (path f) pages e]) \<and>
     (\<forall>ob\<in>set (fst (fst (ListFolder sp f w))). additionalInfo ob = []) \<and>
     EnableVersioning (heap (snd (ListFolder sp f w)) (config f)) = VersioningDefault \<and>
     (\<exists>n rs. n \<le> length (partitionStrings paths 1000) \<and> length rs = n \<and>
        newEvents w (snd (DeleteObjects f paths w)) =
          EvGetBucketVersioning (bucket f) (Inl err) #
          map (\<lambda>(part, res). EvDeleteObjects (bucket f)
                 (map (\<lambda>key. \<lparr>oi_Key = path f @ key, oi_VersionId = None\<rparr>) part) res)
            (zip (take n (partitionStrings paths 1000)) rs)) \<and>
     EnableVersioning (heap (snd (DeleteObjects f paths w)) (config f)) = VersioningDefault"
proof -
  let ?w1 = "emit (EvGetBucketVersioning (bucket f) (Inl err)) b w"
  have v: "isVersioningEnabled f w = (False, ?w1)"
    using assms by (simp add: isVersioningEnabled_def modes_distinct Let_def)
  have m1: "EnableVersioning (heap ?w1 (config f)) = VersioningDefault"
    using assms(1) by simp
  have again: "newEvents ?w1 (snd (isVersioningEnabled f ?w1)) =
       [EvGetBucketVersioning (bucket f) (fst (GetBucketVersioning (s3API f) (bucket f) b))]"
    using m1
    by (auto simp: isVersioningEnabled_def modes_distinct Let_def newEvents_def
        split: prod.splits sum.splits)
  from ListFolder_plain [OF v, of sp] obtain pages e where
    l: "trace (snd (ListFolder sp f w)) = trace ?w1 @ [EvListObjectsPages (bucket f) (path f) pages e] \<or>
        trace (snd (ListFolder sp f w)) = trace ?w1 @ [EvListObjectsV2Pages (bucket f) (path f) pages e]"
       "heap (snd (ListFolder sp f w)) = heap ?w1"
       "\<forall>ob\<in>set (fst (fst (ListFolder sp f w))). additionalInfo ob = []"
    by blast
  have lf: "\<exists>pages e.
        newEvents w (snd (ListFolder sp f w)) =
          [EvGetBucketVersioning (bucket f) (Inl err), EvListObjectsPages (bucket f) (path f) pages e] \<or>
        newEvents w (snd (ListFolder sp f w)) =
          [EvGetBucketVersioning (bucket f) (Inl err), EvListObjectsV2Pages (bucket f) (path f) pages e]"
    using l(1) by (auto simp: newEvents_def)
  have lm: "EnableVersioning (heap (snd (ListFolder sp f w)) (config f)) = VersioningDefault"
    using l(2) m1 by simp
  obtain r w' where d: "deleteParts f False (partitionStrings paths 1000) ?w1 = (r, w')"
    by (metis prod.collapse)
  have dw: "snd (DeleteObjects f paths w) = w'"
    using v d by (simp add: DeleteObjects_def)
  from deleteParts_plain [OF d] obtain n rs where
    p: "heap w' = heap ?w1" "n \<le> length (partitionStrings paths 1000)" "length rs = n"
       "trace w' = trace ?w1 @
          map (\<lambda>(part, res). EvDeleteObjects (bucket f)
                 (map (\<lambda>key. \<lparr>oi_Key = path f @ key, oi_VersionId = None\<rparr>) part) res)
            (zip (take n (partitionStrings paths 1000)) rs)"
    by blast
  have dl: "\<exists>n rs. n \<le> length (partitionStrings paths 1000) \<and> length rs = n \<and>
        newEvents w (snd (DeleteObjects f paths w)) =
          EvGetBucketVersioning (bucket f) (Inl err) #
          map (\<lambda>(part, res). EvDeleteObjects (bucket f)
                 (map (\<lambda>key. \<lparr>oi_Key = path f @ key, oi_VersionId = None\<rparr>) part) res)
            (zip (take n (partitionStrings paths 1000)) rs)"
    using p(2,3,4) unfolding dw newEvents_def by (intro exI [of _ n] exI [of _ rs]) simp
  have dm: "EnableVersioning (heap (snd (DeleteObjects f paths w)) (config f)) = VersioningDefault"
    unfolding dw using p(1) m1 by simp
  show ?thesis
    using v m1 again lf l(3) lm dl dm by simp
qed

theorem failed_versioning_query_is_not_cached_witness:
  "EnableVersioning (heap (exampleWorld VersioningDefault) (config (exampleFolder deniedS3))) =
     VersioningDefault \<and>
   GetBucketVersioning deniedS3 ''bkt'' 0 = (Inl (AwsError ''AccessDenied'' ''denied''), 1) \<and>
   isVersioningEnabled (exampleFolder deniedS3) (exampleWorld VersioningDefault) =
     (False, emit (EvGetBucketVersioning ''bkt'' (Inl (AwsError ''AccessDenied'' ''denied''))) 1
        (exampleWorld VersioningDefault)) \<and>
   EnableVersioning
     (heap (snd (isVersioningEnabled (exampleFolder deniedS3) (exampleWorld VersioningDefault))) 0) =
     VersioningDefault \<and>
   EnableVersioning
     (heap (snd (DeleteObjects (exampleFolder deniedS3) [''a'', ''b''] (exampleWorld VersioningDefault))) 0) =
     VersioningDefault \<and>
   trace (snd (DeleteObjects (exampleFolder deniedS3) [''a'', ''b''] (exampleWorld VersioningDefault))) =
     [EvGetBucketVersioning ''bkt'' (Inl (AwsError ''AccessDenied'' ''denied'')),
      EvDeleteObjects ''bkt''
        [\<lparr>oi_Key = ''base/a'', oi_VersionId = None\<rparr>,
         \<lparr>oi_Key = ''base/b'', oi_VersionId = None\<rparr>] None]"
proof -
  let ?f = "exampleFolder deniedS3" and ?w = "exampleWorld VersioningDefault"
  have h1: "EnableVersioning (heap ?w (config ?f)) = VersioningDefault"
    by (simp add: exampleWorld_def exampleConfig_def)
  have h2: "GetBucketVersioning (s3API ?f) (bucket ?f) (s3 ?w) =
      (Inl (AwsError ''AccessDenied'' ''denied''), 1)"
    by (simp add: exampleFolder_def exampleWorld_def deniedS3_def okS3_def)
  have c: "config ?f = 0" "bucket ?f = ''bkt''" "s3API ?f = deniedS3" "s3 ?w = 0"
    by (simp_all add: exampleFolder_def exampleWorld_def)
  have t: "trace (snd (DeleteObjects ?f [''a'', ''b''] ?w)) =
     [EvGetBucketVersioning ''bkt'' (Inl (AwsError ''AccessDenied'' ''denied'')),
      EvDeleteObjects ''bkt''
        [\<lparr>oi_Key = ''base/a'', oi_VersionId = None\<rparr>,
         \<lparr>oi_Key = ''base/b'', oi_VersionId = None\<rparr>] None]"
    by (simp add: DeleteObjects_def isVersioningEnabled_def exampleFolder_def exampleWorld_def
        exampleConfig_def okS3_def deniedS3_def partitionStrings_unfold partitionToObjects_def
        modes_distinct emit_def Let_def)
  show ?thesis
    using failed_versioning_query_is_not_cached [OF h1 h2, of exampleStorage "[''a'', ''b'']"] h1 h2 t
    unfolding c by simp
qed

section \<open>The size of a batch\<close>

lemma manyKeys_identifiers:
  "identifiersOf (manyKeys prefix) =
     map (\<lambda>i. \<lparr>oi_Key = prefix @ replicate i CHR ''x'', oi_VersionId = Some ''v1''\<rparr>) [0..<501]"
  by (simp add: identifiersOf_eq manyKeys_def comp_def)

lemma many_keys_deletion:
  "DeleteObjects (exampleFolder manyKeysS3) [''a'', ''b''] (exampleWorld VersioningEnabled) =
     (None,
      \<lparr>heap = (\<lambda>a. exampleConfig VersioningEnabled), s3 = 3,
       trace = [EvListObjectVersions ''bkt'' ''base/a'' (Inr (manyKeys ''base/a'')),
                EvListObjectVersions ''bkt'' ''base/b'' (Inr (manyKeys ''base/b'')),
                EvDeleteObjects ''bkt''
                  (identifiersOf (manyKeys ''base/a'') @ identifiersOf (manyKeys ''base/b'')) None]\<rparr>)"
  by (simp add: DeleteObjects_def isVersioningEnabled_def exampleFolder_def exampleWorld_def
      exampleConfig_def okS3_def manyKeysS3_def partitionStrings_unfold partitionToObjects_def
      getObjectVersions_def emit_def Let_def del: upt.simps)

text \<open>
  C4 (the failing input). The folder has versioning enabled, and the bucket holds 501
  keys that start with \<open>base/a\<close> and 501 that start with \<open>base/b\<close>, each in one version.
  \<open>DeleteObjects\<close> of the two paths \<open>a\<close> and \<open>b\<close> makes a single batch call, and that
  call carries 1002 identifiers of 1002 different keys.
\<close>

theorem DeleteObjects_batch_over_1000:
  "deleteCalls (trace (snd (DeleteObjects (exampleFolder manyKeysS3) [''a'', ''b'']
       (exampleWorld VersioningEnabled)))) =
     [identifiersOf (manyKeys ''base/a'') @ identifiersOf (manyKeys ''base/b'')] \<and>
   length (identifiersOf (manyKeys ''base/a'') @ identifiersOf (manyKeys ''base/b'')) = 1002 \<and>
   distinct (map oi_Key (identifiersOf (manyKeys ''base/a'') @ identifiersOf (manyKeys ''base/b'')))"
proof -
  have inj: "\<And>p. inj_on (\<lambda>i. p @ replicate i CHR ''x'') {0..<501}"
    by (auto simp: inj_on_def dest: arg_cong [where f = length])
  have k: "\<And>p. map oi_Key (identifiersOf (manyKeys p)) = map (\<lambda>i. p @ replicate i CHR ''x'') [0..<501]"
    by (simp add: manyKeys_identifiers comp_def del: upt.simps)
  have da: "\<And>p. distinct (map oi_Key (identifiersOf (manyKeys p)))"
    unfolding k by (simp add: distinct_map inj del: upt.simps)
  have "set (map oi_Key (identifiersOf (manyKeys ''base/a''))) \<inter>
        set (map oi_Key (identifiersOf (manyKeys ''base/b''))) = {}"
    unfolding k by auto
  then have d: "distinct (map oi_Key (identifiersOf (manyKeys ''base/a'') @ identifiersOf (manyKeys ''base/b'')))"
    using da by simp
  show ?thesis
    using d by (simp add: many_keys_deletion manyKeys_identifiers del: upt.simps)
qed

lemma deleteCalls_append: "deleteCalls (xs @ ys) = deleteCalls xs @ deleteCalls ys"
  by (induction xs rule: deleteCalls.induct) simp_all

lemma deleteCalls_versioning_query:
  "\<forall>ev\<in>set evs. \<exists>r. ev = EvGetBucketVersioning bkt r \<Longrightarrow> deleteCalls evs = []"
  by (induction evs) auto

lemma deleteCalls_batches:
  "length rs = length ps \<Longrightarrow>
     deleteCalls (map (\<lambda>(part, res). EvDeleteObjects bkt (g part) res) (zip ps rs)) = map g ps"
  by (induction ps rs rule: list_induct2') simp_all

text \<open>
  What holds of the batches where versioning is not in use: the calls carry the blocks of
  the listed paths in order, at most 1000 keys each; all \<open>\<lceil>n / 1000\<rceil>\<close> blocks when no call
  fails, and otherwise the blocks up to the one the backend refused, which the error names.
\<close>

lemma DeleteObjects_plain_batches:
  assumes "isVersioningEnabled f w = (False, w1)"
    and "DeleteObjects f paths w = (r, w')"
  shows "\<exists>n. n \<le> length (partitionStrings paths 1000) \<and>
           deleteCalls (newEvents w w') =
             map (map (\<lambda>key. \<lparr>oi_Key = path f @ key, oi_VersionId = None\<rparr>))
               (take n (partitionStrings paths 1000)) \<and>
           (\<forall>objs\<in>set (deleteCalls (newEvents w w')). length objs \<le> 1000) \<and>
           (r = None \<longrightarrow> n = (length paths + 999) div 1000) \<and>
           (\<forall>e. r = Some e \<longrightarrow> 0 < n \<and>
              (\<exists>cause. e = Wrapf cause (''failed to delete s3 object: '' @
                  quoted (formatStrings (partitionStrings paths 1000 ! (n - 1))))))"
proof -
  let ?parts = "partitionStrings paths 1000"
  let ?plain = "map (\<lambda>key. \<lparr>oi_Key = path f @ key, oi_VersionId = None\<rparr>)"
  from assms have d: "deleteParts f False ?parts w1 = (r, w')" by (simp add: DeleteObjects_def)
  from isVersioningEnabled_events [OF assms(1)] obtain evs0 where
    e0: "trace w1 = trace w @ evs0" "\<forall>ev\<in>set evs0. \<exists>r. ev = EvGetBucketVersioning (bucket f) r"
    by blast
  from deleteParts_plain [OF d] obtain n rs where
    p: "n \<le> length ?parts" "length rs = n"
       "trace w' = trace w1 @
          map (\<lambda>(part, res). EvDeleteObjects (bucket f) (?plain part) res) (zip (take n ?parts) rs)"
       "case r of
           None \<Rightarrow> n = length ?parts \<and> rs = replicate n None
         | Some e \<Rightarrow> \<exists>cause. 0 < n \<and> rs = replicate (n - 1) None @ [Some cause] \<and>
              e = Wrapf cause (''failed to delete s3 object: '' @
                     quoted (formatStrings (?parts ! (n - 1))))"
    by blast
  have len: "length rs = length (take n ?parts)" using p(1,2) by simp
  have calls: "deleteCalls (newEvents w w') = map ?plain (take n ?parts)"
    using e0(1) p(3) deleteCalls_batches [OF len, of "bucket f" ?plain]
      deleteCalls_versioning_query [OF e0(2)]
    by (simp add: newEvents_def deleteCalls_append)
  have small: "\<forall>objs\<in>set (deleteCalls (newEvents w w')). length objs \<le> 1000"
    unfolding calls using partitionStrings_blocks [of 1000 _ paths]
    by (auto dest!: in_set_takeD)
  have n: "r = None \<longrightarrow> n = (length paths + 999) div 1000"
    using p(4) length_partitionStrings [of 1000 paths] by auto
  have e: "\<forall>e. r = Some e \<longrightarrow> 0 < n \<and>
              (\<exists>cause. e = Wrapf cause (''failed to delete s3 object: '' @
                  quoted (formatStrings (?parts ! (n - 1)))))"
    using p(4) by auto
  show ?thesis using p(1) calls small n e by blast
qed

section \<open>Sub-folders and the shared configuration\<close>

lemma writesModeOnly_refl: "heap w' = heap w \<Longrightarrow> writesModeOnly c w w'"
  by (simp add: writesModeOnly_def)

lemma writesModeOnly_set:
  "heap w1 = heap w \<Longrightarrow> writesModeOnly c w (setEnableVersioning c v w1)"
  by (simp add: writesModeOnly_def setEnableVersioning_def)

lemma writesModeOnly_trans:
  "writesModeOnly c w w1 \<Longrightarrow> writesModeOnly c w1 w2 \<Longrightarrow> writesModeOnly c w w2"
  unfolding writesModeOnly_def
  by (metis (no_types, lifting) Config.surjective Config.update_convs(2))

lemma isVersioningEnabled_frame:
  "writesModeOnly (config f) w (snd (isVersioningEnabled f w))"
  by (auto simp: isVersioningEnabled_def Let_def writesModeOnly_refl writesModeOnly_set
      split: prod.splits sum.splits)

lemma partitionToObjectsLoop_heap:
  "heap (snd (partitionToObjectsLoop f nv keys acc w)) = heap w"
  by (induction keys arbitrary: acc w)
    (auto simp: getObjectVersions_def Let_def split: prod.splits sum.splits)

lemma deleteParts_heap: "heap (snd (deleteParts f nv parts w)) = heap w"
proof (induction parts arbitrary: w)
  case Nil
  then show ?case by simp
next
  case (Cons part parts)
  have "heap (snd (partitionToObjects f part nv w)) = heap w"
    by (simp add: partitionToObjects_def partitionToObjectsLoop_heap)
  then show ?case
    using Cons.IH by (auto simp: Let_def split: prod.splits option.splits)
qed

lemma Exists_heap: "heap (snd (Exists f p w)) = heap w"
  by (auto simp: Exists_def Let_def split: prod.splits option.splits)

lemma listing_heap:
  "heap (snd (listVersions sp f prefix w)) = heap w"
  "heap (snd (listObjectsPages sp f prefix acc w)) = heap w"
  by (auto simp: listVersions_def listObjectsPages_def listObjectsPagesV1_def
      listObjectsPagesV2_def Let_def split: prod.splits option.splits)

lemma perform_frame: "writesModeOnly (config g) w (perform sp g op w)"
proof (cases op)
  case (OpExists p)
  then show ?thesis by (simp add: writesModeOnly_refl Exists_heap)
next
  case (OpReadObject p)
  then show ?thesis
    by (auto simp: ReadObject_def Let_def writesModeOnly_refl split: prod.splits sum.splits)
next
  case (OpPutObject name content)
  then show ?thesis by (auto simp: PutObject_def writesModeOnly_refl split: prod.splits)
next
  case (OpCopyObject src dst)
  have "heap (snd (CopyObject sp g src dst w)) = heap (snd (Exists g src w))"
    by (auto simp: CopyObject_def Let_def split: prod.splits option.splits)
  then show ?thesis using OpCopyObject by (simp add: writesModeOnly_refl Exists_heap)
next
  case OpListFolder
  obtain on w1 where v: "isVersioningEnabled g w = (on, w1)" by (metis prod.collapse)
  have "heap (snd (ListFolder sp g w)) = heap w1"
    using v listing_heap(1) [of sp g "path g" w1] listing_heap(2) [of sp g "path g" "([], [])" w1]
    by (auto simp: ListFolder_def split: prod.splits option.splits)
  then have "writesModeOnly (config g) w1 (snd (ListFolder sp g w))" by (rule writesModeOnly_refl)
  with isVersioningEnabled_frame [of g w] v show ?thesis
    using OpListFolder by (auto intro: writesModeOnly_trans)
next
  case (OpDeleteObjects paths)
  obtain on w1 where v: "isVersioningEnabled g w = (on, w1)" by (metis prod.collapse)
  have "heap (snd (DeleteObjects g paths w)) = heap w1"
    using v by (simp add: DeleteObjects_def deleteParts_heap)
  then have "writesModeOnly (config g) w1 (snd (DeleteObjects g paths w))"
    by (rule writesModeOnly_refl)
  with isVersioningEnabled_frame [of g w] v show ?thesis
    using OpDeleteObjects by (auto intro: writesModeOnly_trans)
next
  case OpValidate
  then show ?thesis
    by (auto simp: Validate_def Let_def writesModeOnly_refl split: prod.splits option.splits)
next
  case (OpSetVersioningEnabled enable)
  obtain on w1 where v: "isVersioningEnabled g w = (on, w1)" by (metis prod.collapse)
  have s: "\<And>x. writesModeOnly (config g) w1 (setEnableVersioning (config g) x w1)"
    by (simp add: writesModeOnly_set)
  show ?thesis
    using OpSetVersioningEnabled v isVersioningEnabled_frame [of g w] s
    by (auto simp: SetVersioningEnabled_def writesModeOnly_set intro: writesModeOnly_trans)
qed

lemma isVersioningEnabled_same_handle:
  assumes "s3API g = s3API f" "config g = config f" "bucket g = bucket f"
  shows "isVersioningEnabled g w = isVersioningEnabled f w"
  unfolding isVersioningEnabled_def assms by (rule refl)

text \<open>
  C9 (counterexample). The parent folder has versioning enabled. After
  \<open>SetVersioningEnabled(false)\<close> on a sub-folder, the parent's own \<open>isVersioningEnabled\<close>
  answers false: the operation on the sub-folder wrote the mode the parent reads.
\<close>

theorem GetSubFolder_shared_mode_counterexample:
  "fst (isVersioningEnabled (exampleFolder okS3) (exampleWorld VersioningEnabled)) = True \<and>
   fst (isVersioningEnabled (exampleFolder okS3)
          (SetVersioningEnabled
             (GetSubFolder exampleStorage (exampleFolder okS3) ''seg'' (exampleWorld VersioningEnabled))
             False (exampleWorld VersioningEnabled))) = False"
  by (simp add: isVersioningEnabled_def SetVersioningEnabled_def GetSubFolder_def NewFolder_def
      setEnableVersioning_def exampleFolder_def exampleWorld_def exampleConfig_def modes_distinct)

text \<open>
  C9 (amended). \<open>GetSubFolder\<close> calls nothing on the backend (it computes a folder
  value from the parent and the configuration) and returns a folder with a prefix of its
  own that holds the parent's client and the parent's configuration pointer. The cached
  versioning mode is a field of that shared configuration: whatever operation runs on the
  sub-folder, it writes at most the versioning mode of the shared configuration (no other
  field, no other configuration), and the parent reads the mode the sub-folder left: from
  any state, parent and sub-folder give the same answer to \<open>isVersioningEnabled\<close>.
\<close>

theorem GetSubFolder_shares_config:
  "s3API (GetSubFolder sp f p w) = s3API f \<and>
   uploader (GetSubFolder sp f p w) = uploader f \<and>
   config (GetSubFolder sp f p w) = config f \<and>
   bucket (GetSubFolder sp f p w) = Bucket (heap w (config f)) \<and>
   path (GetSubFolder sp f p w) =
     AddDelimiterToPath sp (TrimPrefix (JoinPath sp (path f) p @ ''/'') ''/'') \<and>
   writesModeOnly (config f) w2 (perform sp (GetSubFolder sp f p w) op w2) \<and>
   (bucket f = Bucket (heap w (config f)) \<longrightarrow>
      fst (isVersioningEnabled f (perform sp (GetSubFolder sp f p w) op w2)) =
      fst (isVersioningEnabled (GetSubFolder sp f p w) (perform sp (GetSubFolder sp f p w) op w2)))"
proof -
  let ?g = "GetSubFolder sp f p w"
  have g: "s3API ?g = s3API f" "uploader ?g = uploader f" "config ?g = config f"
    "bucket ?g = Bucket (heap w (config f))"
    "path ?g = AddDelimiterToPath sp (TrimPrefix (JoinPath sp (path f) p @ ''/'') ''/'')"
    by (simp_all add: GetSubFolder_def NewFolder_def)
  have fr: "writesModeOnly (config f) w2 (perform sp ?g op w2)"
    using perform_frame [of ?g w2 sp op] by (simp add: g)
  have "bucket f = Bucket (heap w (config f)) \<longrightarrow>
      fst (isVersioningEnabled f (perform sp ?g op w2)) =
      fst (isVersioningEnabled ?g (perform sp ?g op w2))"
    using isVersioningEnabled_same_handle [of ?g f] g by simp
  with g fr show ?thesis by simp
qed

theorem GetSubFolder_shares_config_witness:
  "path (GetSubFolder exampleStorage (exampleFolder okS3) ''seg'' (exampleWorld VersioningDefault)) =
     ''base/seg/'' \<and>
   config (GetSubFolder exampleStorage (exampleFolder okS3) ''seg'' (exampleWorld VersioningDefault)) = 0 \<and>
   writesModeOnly 0 (exampleWorld VersioningDefault)
     (perform exampleStorage
        (GetSubFolder exampleStorage (exampleFolder okS3) ''seg'' (exampleWorld VersioningDefault))
        OpListFolder (exampleWorld VersioningDefault)) \<and>
   EnableVersioning
     (heap (perform exampleStorage
        (GetSubFolder exampleStorage (exampleFolder okS3) ''seg'' (exampleWorld VersioningDefault))
        OpListFolder (exampleWorld VersioningDefault)) 0) = VersioningDisabled \<and>
   fst (isVersioningEnabled (exampleFolder okS3)
     (perform exampleStorage
        (GetSubFolder exampleStorage (exampleFolder okS3) ''seg'' (exampleWorld VersioningDefault))
        OpListFolder (exampleWorld VersioningDefault))) =
   fst (isVersioningEnabled
     (GetSubFolder exampleStorage (exampleFolder okS3) ''seg'' (exampleWorld VersioningDefault))
     (perform exampleStorage
        (GetSubFolder exampleStorage (exampleFolder okS3) ''seg'' (exampleWorld VersioningDefault))
        OpListFolder (exampleWorld VersioningDefault)))"
proof -
  let ?f = "exampleFolder okS3" and ?w = "exampleWorld VersioningDefault"
  have b: "bucket ?f = Bucket (heap ?w (config ?f))"
    by (simp add: exampleFolder_def exampleWorld_def exampleConfig_def)
  have c: "config ?f = 0" by (simp add: exampleFolder_def)
  have p: "AddDelimiterToPath exampleStorage
       (TrimPrefix (JoinPath exampleStorage (path ?f) ''seg'' @ ''/'') ''/'') = ''base/seg/''"
    by (simp add: exampleStorage_def exampleFolder_def TrimPrefix_def)
  have m: "EnableVersioning
     (heap (perform exampleStorage (GetSubFolder exampleStorage ?f ''seg'' ?w) OpListFolder ?w) 0) =
     VersioningDisabled"
    by (simp add: ListFolder_def isVersioningEnabled_def listObjectsPages_def listObjectsPagesV2_def
        GetSubFolder_def NewFolder_def exampleFolder_def exampleWorld_def exampleConfig_def
        okS3_def modes_distinct BucketVersioningStatusEnabled_def setEnableVersioning_def
        emit_def Let_def split: prod.splits)
  show ?thesis
    using GetSubFolder_shares_config [of exampleStorage ?f "''seg''" ?w ?w OpListFolder] b m
    unfolding c p by simp
qed

section \<open>Runs of Infos\<close>

lemma sum_list_update:
  fixes f :: "'a \<Rightarrow> 'b multiset"
  shows "i < length xs \<Longrightarrow> sum_list (map f (xs[i := y])) + f (xs ! i) = sum_list (map f xs) + f y"
proof (induction xs arbitrary: i)
  case Nil
  then show ?case by simp
next
  case (Cons x xs)
  then show ?case by (cases i) (simp_all add: ac_simps)
qed

lemma sum_list_remove:
  fixes f :: "'a \<Rightarrow> 'b multiset"
  shows "i < length xs \<Longrightarrow> sum_list (map f (take i xs @ drop (Suc i) xs)) + f (xs ! i) = sum_list (map f xs)"
proof (induction xs arbitrary: i)
  case Nil
  then show ?case by simp
next
  case (Cons x xs)
  then show ?case by (cases i) (simp_all add: ac_simps)
qed

lemma invariant_initial: "invariant chs (initial chs s)"
  by (simp add: invariant_def initial_def)

lemma invariant_drain:
  assumes "invariant chs st" "pc st = here" "here = Draining \<or> here = FinalDraining"
    and "here = FinalDraining \<longrightarrow> next = Returned None"
    and "here = Draining \<longrightarrow> next = Acquiring"
  shows "invariant chs (drain here next st)"
proof (cases "errors st")
  case Nil
  then show ?thesis
    using assms by (auto simp: invariant_def drain_def)
next
  case (Cons err rest)
  show ?thesis
  proof (cases err)
    case None
    then show ?thesis
      using assms Cons by (auto simp: invariant_def drain_def)
  next
    case (Some e)
    have "set (received st) \<subseteq> {None}" using assms by (auto simp: invariant_def)
    then have "received st = replicate (length (received st)) None"
      by (metis replicate_length_same singletonD subsetD)
    then have "\<exists>k. received st @ [Some e] = replicate k None @ [Some e]" by metis
    then show ?thesis
      using assms Cons Some by (auto simp: invariant_def drain_def)
  qed
qed

lemma invariant_mainStep:
  assumes "invariant chs st" "mainStep st = Some st'"
  shows "invariant chs st'"
proof (cases "pc st")
  case Draining
  then show ?thesis
    using assms invariant_drain [of chs st Draining Acquiring] by (simp add: mainStep_def)
next
  case Acquiring
  then show ?thesis
    using assms
    by (auto simp: mainStep_def invariant_def split: list.splits if_splits)
next
  case Waiting
  then show ?thesis
    using assms by (auto simp: mainStep_def invariant_def split: if_splits)
next
  case FinalDraining
  then show ?thesis
    using assms invariant_drain [of chs st FinalDraining "Returned None"] by (simp add: mainStep_def)
next
  case (Returned r)
  then show ?thesis using assms by (simp add: mainStep_def)
qed

lemma invariant_update:
  assumes inv: "invariant chs st" and i: "i < length (goroutines st)"
    and J: "jobsOf (goroutines st ! i) = jobsOf g' + mset (map fst new)"
    and H: "heldBy g' = heldBy (goroutines st ! i) + mset (map snd new)"
    and st': "todo st' = todo st" "pc st' = pc st" "errors st' = errors st"
      "received st' = received st" "goroutines st' = (goroutines st)[i := g']"
      "finished st' = finished st @ new"
  shows "invariant chs st'"
proof -
  let ?gs = "goroutines st"
  have j: "sum_list (map jobsOf ?gs) + jobsOf g' =
        sum_list (map jobsOf (?gs[i := g'])) + jobsOf g' + mset (map fst new)"
    using sum_list_update [OF i, of jobsOf g'] J by (simp add: ac_simps)
  then have j': "sum_list (map jobsOf ?gs) = sum_list (map jobsOf (?gs[i := g'])) + mset (map fst new)"
    by (metis (no_types, lifting) add.assoc add.commute add_right_cancel)
  have h: "sum_list (map heldBy (?gs[i := g'])) + heldBy (?gs ! i) =
        sum_list (map heldBy ?gs) + heldBy (?gs ! i) + mset (map snd new)"
    using sum_list_update [OF i, of heldBy g'] H by (simp add: ac_simps)
  then have h': "sum_list (map heldBy (?gs[i := g'])) = sum_list (map heldBy ?gs) + mset (map snd new)"
    by (metis (no_types, lifting) add.assoc add.commute add_right_cancel)
  have ne: "?gs \<noteq> []" using i by auto
  have a: "mset (todo st') + sum_list (map jobsOf (goroutines st')) + mset (map fst (finished st')) =
        mset chs"
    using inv unfolding invariant_def st' j' by (simp add: ac_simps)
  have b: "mset (errors st') + sum_list (map heldBy (goroutines st')) + mset (received st') =
        mset (map snd (finished st'))"
    using inv unfolding invariant_def st' h' by (simp add: ac_simps)
  show ?thesis
    using inv a b ne i unfolding invariant_def st' by auto
qed

lemma invariant_send:
  assumes inv: "invariant chs st" and i: "i < length (goroutines st)"
    and g: "goroutines st ! i = Sending err"
    and st': "todo st' = todo st" "pc st' = pc st" "errors st' = errors st @ [err]"
      "received st' = received st"
      "goroutines st' = take i (goroutines st) @ drop (Suc i) (goroutines st)"
      "finished st' = finished st"
  shows "invariant chs st'"
proof -
  let ?gs = "goroutines st"
  have j: "sum_list (map jobsOf (take i ?gs @ drop (Suc i) ?gs)) = sum_list (map jobsOf ?gs)"
    using sum_list_remove [OF i, of jobsOf] g by simp
  have h: "sum_list (map heldBy ?gs) = sum_list (map heldBy (take i ?gs @ drop (Suc i) ?gs)) + {#err#}"
    using sum_list_remove [OF i, of heldBy] g by simp
  have ne: "?gs \<noteq> []" using i by auto
  have a: "mset (todo st') + sum_list (map jobsOf (goroutines st')) + mset (map fst (finished st')) =
        mset chs"
    using inv unfolding invariant_def st' j by simp
  have b: "mset (errors st') + sum_list (map heldBy (goroutines st')) + mset (received st') =
        mset (map snd (finished st'))"
    using inv unfolding invariant_def st' h by (simp add: ac_simps)
  have c: "pc st \<noteq> FinalDraining \<and> pc st \<noteq> Returned None"
    using inv ne unfolding invariant_def by auto
  show ?thesis
    using inv a b c unfolding invariant_def st'(1,2,4) by auto
qed

lemma copying_holds_nothing: "jobsOf g = {#ch#} \<Longrightarrow> heldBy g = {#}"
  by (cases g) simp_all

lemma invariant_returns:
  assumes inv: "invariant chs st" and i: "i < length (goroutines st)"
    and j: "jobsOf (goroutines st ! i) = {#ch#}"
  shows "invariant chs (returns i ch err (st\<lparr>store := s1\<rparr>))"
proof (rule invariant_update [OF inv i, where g' = "Releasing err" and new = "[(ch, err)]"])
  show "jobsOf (goroutines st ! i) = jobsOf (Releasing err) + mset (map fst [(ch, err)])"
    using j by simp
  show "heldBy (Releasing err) = heldBy (goroutines st ! i) + mset (map snd [(ch, err)])"
    using copying_holds_nothing [OF j] by simp
qed (simp_all add: returns_def)

lemma invariant_moves:
  assumes inv: "invariant chs st" and i: "i < length (goroutines st)"
    and j: "jobsOf (goroutines st ! i) = jobsOf g'" and h: "heldBy g' = heldBy (goroutines st ! i)"
  shows "invariant chs (st\<lparr>store := s1, goroutines := (goroutines st)[i := g']\<rparr>)"
    and "invariant chs (st\<lparr>tickets := n, goroutines := (goroutines st)[i := g']\<rparr>)"
proof -
  show "invariant chs (st\<lparr>store := s1, goroutines := (goroutines st)[i := g']\<rparr>)"
    by (rule invariant_update [OF inv i, where g' = g' and new = "[]"]) (simp_all add: j h)
  show "invariant chs (st\<lparr>tickets := n, goroutines := (goroutines st)[i := g']\<rparr>)"
    by (rule invariant_update [OF inv i, where g' = g' and new = "[]"]) (simp_all add: j h)
qed

lemma invariant_goroutineStep:
  assumes inv: "invariant chs st" and s: "goroutineStep env i st = Some st'"
  shows "invariant chs st'"
proof -
  from s have i: "i < length (goroutines st)"
    by (auto simp: goroutineStep_def split: if_splits)
  show ?thesis
  proof (cases "goroutines st ! i")
    case (Reading ch)
    obtain res s1 where rd: "FolderReadObject env (From ch) (GetName env (SrcObj ch)) (store st) = (res, s1)"
      by (metis prod.collapse)
    show ?thesis
    proof (cases res)
      case (Inl err)
      with s i Reading rd have "st' = returns i ch (Some err) (st\<lparr>store := s1\<rparr>)"
        by (simp add: goroutineStep_def)
      then show ?thesis using invariant_returns [OF inv i] Reading by simp
    next
      case (Inr body)
      show ?thesis
      proof (cases "case SourceTransformer ch of Some transform \<Rightarrow> transform body | None \<Rightarrow> Inr body")
        case (Inl err)
        with s i Reading rd Inr have "st' = returns i ch (Some err) (st\<lparr>store := s1\<rparr>)"
          by (simp add: goroutineStep_def)
        then show ?thesis using invariant_returns [OF inv i] Reading by simp
      next
        case r: (Inr r)
        with s i Reading rd Inr
        have "st' = st\<lparr>store := s1, goroutines := (goroutines st)[i := Configuring ch r]\<rparr>"
          by (simp add: goroutineStep_def)
        then show ?thesis using invariant_moves(1) [OF inv i, of "Configuring ch r"] Reading by simp
      qed
    qed
  next
    case (Configuring ch r)
    obtain res s1 where cf: "ConfigureUploaderToFolder env (To ch) (store st) = (res, s1)"
      by (metis prod.collapse)
    show ?thesis
    proof (cases res)
      case (Inl err)
      with s i Configuring cf have "st' = returns i ch (Some err) (st\<lparr>store := s1\<rparr>)"
        by (simp add: goroutineStep_def)
      then show ?thesis using invariant_returns [OF inv i] Configuring by simp
    next
      case (Inr uploader')
      with s i Configuring cf
      have "st' = st\<lparr>store := s1, goroutines := (goroutines st)[i := Uploading ch uploader' r]\<rparr>"
        by (simp add: goroutineStep_def)
      then show ?thesis
        using invariant_moves(1) [OF inv i, of "Uploading ch uploader' r"] Configuring by simp
    qed
  next
    case (Uploading ch uploader' r)
    obtain err s1 where up: "UploaderUpload env uploader' (targetName ch) r (store st) = (err, s1)"
      by (metis prod.collapse)
    with s i Uploading have "st' = returns i ch err (st\<lparr>store := s1\<rparr>)"
      by (simp add: goroutineStep_def)
    then show ?thesis using invariant_returns [OF inv i] Uploading by simp
  next
    case (Releasing err)
    with s i have "st' = st\<lparr>tickets := tickets st + 1, goroutines := (goroutines st)[i := Sending err]\<rparr>"
      by (simp add: goroutineStep_def split: if_splits)
    then show ?thesis using invariant_moves(2) [OF inv i, of "Sending err"] Releasing by simp
  next
    case (Sending err)
    with s i have "st' = st\<lparr>errors := errors st @ [err],
        goroutines := take i (goroutines st) @ drop (Suc i) (goroutines st)\<rparr>"
      by (simp add: goroutineStep_def split: if_splits)
    then show ?thesis using invariant_send [OF inv i Sending, of st'] by simp
  qed
qed

lemma invariant_run:
  "invariant chs st \<Longrightarrow> run env sched st = Some st' \<Longrightarrow> invariant chs st'"
proof (induction sched arbitrary: st)
  case Nil
  then show ?case by simp
next
  case (Cons t ts)
  then obtain st1 where s: "step env t st = Some st1" and r: "run env ts st1 = Some st'"
    by (auto split: option.splits)
  have "invariant chs st1"
    using s Cons.prems(1) invariant_mainStep invariant_goroutineStep by (cases t) auto
  then show ?case using Cons.IH r by blast
qed

text \<open>
  What \<open>Infos\<close> returns, whenever it returns: nil only when every job has been started
  and its \<open>copyObject\<close> has returned nil; an error only when it is the result of a job's
  \<open>copyObject\<close>, and then it is the first error the main goroutine received.
\<close>

lemma Infos_result:
  assumes r: "run env sched (initial chs s) = Some st" and p: "pc st = Returned res"
  shows "(res = None \<longrightarrow>
            mset (map fst (finished st)) = mset chs \<and> set (map snd (finished st)) \<subseteq> {None}) \<and>
         (\<forall>e. res = Some e \<longrightarrow>
            (\<exists>ch. (ch, Some e) \<in> set (finished st)) \<and>
            (\<exists>k. received st = replicate k None @ [Some e]))"
proof -
  have inv: "invariant chs st" using invariant_run [OF invariant_initial r] .
  show ?thesis
  proof (cases res)
    case None
    with inv p have e: "todo st = []" "goroutines st = []" "errors st = []"
      "set (received st) \<subseteq> {None}"
      unfolding invariant_def by simp_all
    from inv have ab:
      "mset (todo st) + sum_list (map jobsOf (goroutines st)) + mset (map fst (finished st)) = mset chs"
      "mset (errors st) + sum_list (map heldBy (goroutines st)) + mset (received st) =
         mset (map snd (finished st))"
      unfolding invariant_def by blast+
    from ab(1) have a: "mset (map fst (finished st)) = mset chs" unfolding e by simp
    from ab(2) have "mset (received st) = mset (map snd (finished st))" unfolding e by simp
    then have "set (received st) = set (map snd (finished st))" by (rule mset_eq_setD)
    with e(4) a None show ?thesis by simp
  next
    case (Some e)
    with inv p obtain k where k: "received st = replicate k None @ [Some e]"
      unfolding invariant_def by auto
    from inv have b: "mset (errors st) + sum_list (map heldBy (goroutines st)) + mset (received st) =
         mset (map snd (finished st))"
      unfolding invariant_def by blast
    have "Some e \<in># mset (received st)" using k by simp
    then have "Some e \<in># mset (map snd (finished st))"
      using b by (metis union_iff)
    then have "Some e \<in> snd ` set (finished st)" by simp
    then obtain ch where "(ch, Some e) \<in> set (finished st)" by force
    with k Some show ?thesis by auto
  qed
qed

text \<open>
  The three storage calls of a goroutine, run without another thread in between, are
  \<open>copyObject\<close>: the goroutine ends up before the release of its ticket with the result of
  \<open>copyObject\<close> on the storage it started from.
\<close>

lemma copy_steps:
  assumes i: "i < length (goroutines st)" and g: "goroutines st ! i = Reading ch"
    and c: "copyObject env ch (store st) = (err, s')"
  shows "\<exists>n\<le>3. run env (replicate n (Job i)) st =
           Some (st\<lparr>store := s', goroutines := (goroutines st)[i := Releasing err],
                    finished := finished st @ [(ch, err)]\<rparr>)"
proof -
  obtain res s1 where rd: "FolderReadObject env (From ch) (GetName env (SrcObj ch)) (store st) = (res, s1)"
    by (metis prod.collapse)
  show ?thesis
  proof (cases res)
    case (Inl e)
    with rd c have "err = Some e" "s' = s1" by (simp_all add: copyObject_def)
    with i g rd Inl show ?thesis
      by (intro exI [of _ 1]) (simp add: goroutineStep_def returns_def)
  next
    case (Inr body)
    show ?thesis
    proof (cases "case SourceTransformer ch of Some transform \<Rightarrow> transform body | None \<Rightarrow> Inr body")
      case (Inl e)
      with rd c Inr have "err = Some e" "s' = s1" by (simp_all add: copyObject_def)
      with i g rd Inr Inl show ?thesis
        by (intro exI [of _ 1]) (simp add: goroutineStep_def returns_def)
    next
      case r: (Inr r)
      obtain cres s2 where cf: "ConfigureUploaderToFolder env (To ch) s1 = (cres, s2)"
        by (metis prod.collapse)
      show ?thesis
      proof (cases cres)
        case (Inl e)
        with rd c Inr r cf have "err = Some e" "s' = s2" by (simp_all add: copyObject_def)
        with i g rd Inr r cf Inl show ?thesis
          by (intro exI [of _ 2])
            (simp add: goroutineStep_def returns_def numeral_2_eq_2)
      next
        case u: (Inr uploader')
        with rd c Inr r cf have up: "UploaderUpload env uploader' (targetName ch) r s2 = (err, s')"
          by (simp add: copyObject_def)
        with i g rd Inr r cf u show ?thesis
          by (intro exI [of _ 3])
            (simp add: goroutineStep_def returns_def numeral_3_eq_3)
      qed
    qed
  qed
qed

lemma stuck_forever: "stuck env st \<Longrightarrow> sched \<noteq> [] \<Longrightarrow> run env sched st = None"
proof (cases sched)
  case Nil
  assume "sched \<noteq> []"
  with Nil show ?thesis by simp
next
  case (Cons t ts)
  assume s: "stuck env st"
  have "step env t st = None"
  proof (cases t)
    case Main
    with s show ?thesis by (simp add: stuck_def)
  next
    case (Job i)
    show ?thesis
    proof (cases "i < length (goroutines st)")
      case True
      with s Job show ?thesis by (simp add: stuck_def list_all_iff)
    next
      case False
      with Job show ?thesis by (simp add: goroutineStep_def)
    qed
  qed
  with Cons show ?thesis by simp
qed

text \<open>
  C3 (the failing input). Seventeen jobs whose copies all succeed, under the schedule
  that lets every goroutine put its ticket back as soon as it is started and send its
  result only when the main goroutine is in \<open>wg.Wait()\<close>: sixteen results fill the channel
  \<open>errors\<close>, the seventeenth goroutine is blocked in its send, the main goroutine is
  blocked in \<open>wg.Wait()\<close>, and no thread can move: \<open>Infos\<close> does not return.
\<close>

theorem Infos_blocks_with_17_jobs:
  "map_option
     (\<lambda>st. (stuck exampleCopyEnv st, pc st, map snd (finished st),
            map isSending (goroutines st), map heldBy (goroutines st), tickets st, errors st))
     (run exampleCopyEnv (lateSends 17) (initial (replicate 17 exampleJob) ())) =
   Some (True, Waiting, replicate 17 None, [True], [{#None#}], 8, replicate 16 None)"
  by code_simp

section \<open>The construction of the jobs\<close>

lemma foldl_snoc_if:
  "foldl (\<lambda>acc x. if P x then acc @ [g x] else acc) acc xs = acc @ map g (filter P xs)"
  by (induction xs arbitrary: acc) auto

text \<open>
  C8. \<open>BuildCopyingInfos\<close> returns, in the order of the objects, one job for each object
  that the filter accepts and none for the others; the job of an object has that object
  as its source object, the given folders as source and destination, and the rename
  function's value on the object as its destination name (and the given transformer).
\<close>

theorem BuildCopyingInfos_jobs:
  "BuildCopyingInfos fromFolder toFolder objects filterFunc renameFunc sourceTransformer =
     map (\<lambda>object. \<lparr>From = fromFolder, SourceTransformer = sourceTransformer, To = toFolder,
                    SrcObj = object, targetName = renameFunc object\<rparr>)
       (filter filterFunc objects)"
  unfolding BuildCopyingInfos_def by (rule foldl_snoc_if [where acc = "[]", simplified])

theorem BuildCopyingInfos_jobs_witness:
  "map targetName
     (BuildCopyingInfos ''src/'' ''dst/'' exampleObjects isTar
        (\<lambda>object. NoopRenameFunc object @ ''.bak'') (Some NoopSourceTransformer)) =
     [''a.tar.bak'', ''c.tar.bak'', ''e.tar.bak''] \<and>
   map SrcObj
     (BuildCopyingInfos ''src/'' ''dst/'' exampleObjects isTar
        (\<lambda>object. NoopRenameFunc object @ ''.bak'') (Some NoopSourceTransformer)) =
     [Some (NewLocalObject ''a.tar'' 1 10), Some (NewLocalObject ''c.tar'' 3 30),
      Some (NewLocalObject ''e.tar'' 5 50)] \<and>
   map From
     (BuildCopyingInfos ''src/'' ''dst/'' exampleObjects isTar
        (\<lambda>object. NoopRenameFunc object @ ''.bak'') (Some NoopSourceTransformer)) =
     [''src/'', ''src/'', ''src/''] \<and>
   map To
     (BuildCopyingInfos ''src/'' ''dst/'' exampleObjects isTar
        (\<lambda>object. NoopRenameFunc object @ ''.bak'') (Some NoopSourceTransformer)) =
     [''dst/'', ''dst/'', ''dst/'']"
  unfolding BuildCopyingInfos_jobs
  by (simp add: exampleObjects_def isTar_def NoopRenameFunc_def NewLocalObject_def
      NewLocalObjectWithAdditionalInfo_def)

end
